theory Spec2Isabelle
  imports Main "HOL-Library.Sublist"
begin

section \<open>Decoded JSON\<close>

text \<open>
  The input is the tree produced by decoding JSON into Go's \<^verbatim>\<open>interface{}\<close>:
  \<^verbatim>\<open>nil\<close>, \<^verbatim>\<open>bool\<close>, a number, \<^verbatim>\<open>string\<close>, \<^verbatim>\<open>[]interface{}\<close> or
  \<^verbatim>\<open>map[string]interface{}\<close>. The engine only ever inspects the shape of a value (type
  assertions to map, slice and string), so the payload of a number is kept as an integer.

  A Go map has no iteration order: \<^verbatim>\<open>range\<close> visits the entries in an order chosen by
  the runtime. A map is therefore an association list whose order is the order in which
  one \<^verbatim>\<open>range\<close> loop visits the entries; \<^verbatim>\<open>m[k]\<close> is \<open>map_of m k\<close>. A statement
  proved for every list holds for every iteration order.
\<close>

datatype json =
    JNull
  | JBool bool
  | JNumber int
  | JString string
  | JArray "json list"
  | JObject "(string \<times> json) list"

type_synonym JSONLD = "(string \<times> json) list"

definition JSON_LD_CONTEXT :: string where
  "JSON_LD_CONTEXT = ''@context''"

definition JSON_LD_TYPE :: string where
  "JSON_LD_TYPE = ''@type''"

definition JSON_LD_TYPE_AS :: string where
  "JSON_LD_TYPE_AS = ''type''"

section \<open>Errors\<close>

text \<open>
  Every \<^verbatim>\<open>fmt.Errorf\<close> of the two source files is a constructor; the arguments are the
  values formatted into the message. \<open>External\<close> is an error made outside the engine (by
  a handler or by the registry). \<open>PanicIndexOutOfRange\<close> is the run-time panic of an
  index expression on an empty slice, \<open>PanicNilDereference\<close> that of a field read
  through a \<^verbatim>\<open>nil\<close> pointer.
\<close>

datatype error =
    RequestedNodeFailed
  | NoNodeEntering string
  | NoNodeExiting string
  | NoNodeApplying string json
  | NoContext
  | CtxDictInArrayValue
  | CtxArrayValue
  | CtxDictValue
  | CtxSingleNotString
  | TypeNameExists string
  | PropertyNameExists
  | ValueNameExists
  | External string
  | PanicIndexOutOfRange
  | PanicNilDereference

section \<open>The vocabulary model (data.go)\<close>

text \<open>
  A \<^verbatim>\<open>*url.URL\<close> is kept as the optional string it was parsed from; the reference
  lists and examples are carried as they are. Field names carry a suffix for the struct
  they belong to, since the structs share the names \<^verbatim>\<open>Name\<close>, \<^verbatim>\<open>URI\<close> and
  \<^verbatim>\<open>Notes\<close>.
\<close>

record VocabularyReference =
  Name_r :: string
  URI_r :: "string option"
  Vocab_r :: string

record VocabularyExample =
  Name_e :: string
  URI_e :: "string option"
  Example_e :: json

record VocabularyValue =
  Name_v :: string
  URI_v :: "string option"
  DefinitionType :: string
  Zero :: string

record VocabularyType =
  Name_t :: string
  URI_t :: "string option"
  Notes_t :: string
  DisjointWith :: "VocabularyReference list"
  Extends :: "VocabularyReference list"
  Properties_t :: "VocabularyReference list"
  WithoutProperties :: "VocabularyReference list"
  Examples_t :: "VocabularyExample list"

record VocabularyProperty =
  Name_p :: string
  URI_p :: "string option"
  Notes_p :: string
  Domain :: "VocabularyReference list"
  Range :: "VocabularyReference list"
  Examples_p :: "VocabularyExample list"
  SubpropertyOf :: VocabularyReference
  Functional :: bool
  NaturalLanguageMap :: bool

text \<open>
  The three Go maps of a \<^verbatim>\<open>Vocabulary\<close> are only read by key and written by key in
  the code modelled here, so they are partial maps; a \<^verbatim>\<open>nil\<close> map is the empty map
  (reading a \<^verbatim>\<open>nil\<close> map finds nothing, and the setters replace it by a fresh map
  before they write).
\<close>

record Vocabulary =
  Types :: "string \<rightharpoonup> VocabularyType"
  Properties :: "string \<rightharpoonup> VocabularyProperty"
  Values :: "string \<rightharpoonup> VocabularyValue"

record ParsedVocabulary =
  Vocab :: Vocabulary
  References :: "string \<rightharpoonup> Vocabulary"

text \<open>
  The setters have a pointer receiver and return an error; the model returns the error
  together with the vocabulary after the call.
\<close>

definition SetType :: "string \<Rightarrow> VocabularyType \<Rightarrow> Vocabulary \<Rightarrow> error option \<times> Vocabulary" where
  "SetType name a v =
     (case Types v name of
        Some _ \<Rightarrow> (Some (TypeNameExists name), v)
      | None \<Rightarrow> (None, v\<lparr>Types := (Types v)(name \<mapsto> a)\<rparr>))"

definition SetProperty :: "string \<Rightarrow> VocabularyProperty \<Rightarrow> Vocabulary \<Rightarrow> error option \<times> Vocabulary" where
  "SetProperty name a v =
     (case Properties v name of
        Some _ \<Rightarrow> (Some PropertyNameExists, v)
      | None \<Rightarrow> (None, v\<lparr>Properties := (Properties v)(name \<mapsto> a)\<rparr>))"

definition SetValue :: "string \<Rightarrow> VocabularyValue \<Rightarrow> Vocabulary \<Rightarrow> error option \<times> Vocabulary" where
  "SetValue name a v =
     (case Values v name of
        Some _ \<Rightarrow> (Some ValueNameExists, v)
      | None \<Rightarrow> (None, v\<lparr>Values := (Values v)(name \<mapsto> a)\<rparr>))"

section \<open>The parsing context\<close>

text \<open>
  \<^verbatim>\<open>Current\<close> and the elements of \<^verbatim>\<open>Stack\<close> are \<^verbatim>\<open>interface{}\<close> values. The
  entities of data.go are held by pointer (their methods have pointer receivers, so only
  the pointers implement the capability interfaces). \<open>PValue (Some v)\<close> stands for a
  pointer to a \<^verbatim>\<open>VocabularyValue\<close> whose fields are \<open>v\<close> at this moment, and
  \<open>PValue None\<close> for the \<^verbatim>\<open>nil\<close> pointer of type \<^verbatim>\<open>*VocabularyValue\<close>, which is a
  non-\<^verbatim>\<open>nil\<close> interface value; likewise for the other four entities. A write through
  such a pointer is a new value in the slot that holds it. \<open>INamed r\<close> is a value of any
  other type that has a \<^verbatim>\<open>GetName() string\<close> method (the interface \<^verbatim>\<open>nameGetter\<close> is
  satisfied by every such type): \<open>r\<close> is \<open>Some n\<close> when the call returns \<open>n\<close> and
  \<open>None\<close> when it panics. \<open>IOther\<close> is a value of a type without that method, and
  \<open>INil\<close> the \<^verbatim>\<open>nil\<close> interface.
\<close>

datatype ival =
    INil
  | PValue "VocabularyValue option"
  | PType "VocabularyType option"
  | PProperty "VocabularyProperty option"
  | PExample "VocabularyExample option"
  | PReference "VocabularyReference option"
  | INamed "string option"
  | IOther json

text \<open>
  The type assertion \<^verbatim>\<open>x.(nameGetter)\<close> followed by \<^verbatim>\<open>GetName()\<close>. The assertion
  looks at the dynamic type only, so it succeeds on a \<^verbatim>\<open>nil\<close> pointer of an entity
  type; the methods of data.go then read \<^verbatim>\<open>v.Name\<close> through the \<^verbatim>\<open>nil\<close> receiver,
  which panics.
\<close>

datatype nameResult = NotNameGetter | NamePanics | NameIs string

fun nameGetter :: "ival \<Rightarrow> nameResult" where
  "nameGetter (PValue (Some v)) = NameIs (Name_v v)"
| "nameGetter (PType (Some v)) = NameIs (Name_t v)"
| "nameGetter (PProperty (Some v)) = NameIs (Name_p v)"
| "nameGetter (PExample (Some v)) = NameIs (Name_e v)"
| "nameGetter (PReference (Some v)) = NameIs (Name_r v)"
| "nameGetter (PValue None) = NamePanics"
| "nameGetter (PType None) = NamePanics"
| "nameGetter (PProperty None) = NamePanics"
| "nameGetter (PExample None) = NamePanics"
| "nameGetter (PReference None) = NamePanics"
| "nameGetter (INamed (Some n)) = NameIs n"
| "nameGetter (INamed None) = NamePanics"
| "nameGetter INil = NotNameGetter"
| "nameGetter (IOther _) = NotNameGetter"

text \<open>
  Handlers (\<^verbatim>\<open>RDFNode\<close> values) are named by an index into a table of handlers, so
  that the context can hold one: \<open>None\<close> is the \<^verbatim>\<open>nil\<close> interface.

  \<^verbatim>\<open>Result\<close> is a pointer to a \<^verbatim>\<open>ParsedVocabulary\<close>: an address, or \<open>None\<close> for
  \<^verbatim>\<open>nil\<close>. The objects it can point to are held in a memory, a table from addresses to
  \<^verbatim>\<open>ParsedVocabulary\<close> values. \<open>ParsingContext\<close> is the Go struct; \<open>ParseState\<close> is
  the struct together with that memory, and is what a handler receives and returns, since
  a handler may write through \<^verbatim>\<open>ctx.Result\<close> as well as make the field point to
  another object. The operations of the context are defined for both.
\<close>

type_synonym nid = nat

type_synonym addr = nat

record ParsingContext =
  Result :: "addr option"
  Current :: ival
  Name :: string
  Stack :: "ival list"
  OnlyApplyThisNodeNextLevel :: "nid option"
  OnlyApplied :: bool
  OnlyApplyThisNode :: "nid option"

record ParseState = ParsingContext +
  Memory :: "addr \<Rightarrow> ParsedVocabulary"

definition SetOnlyApplyThisNode :: "nid \<Rightarrow> 'a ParsingContext_scheme \<Rightarrow> 'a ParsingContext_scheme" where
  "SetOnlyApplyThisNode n p = p\<lparr>OnlyApplyThisNode := Some n\<rparr>"

definition ResetOnlyApplyThisNode :: "'a ParsingContext_scheme \<Rightarrow> 'a ParsingContext_scheme" where
  "ResetOnlyApplyThisNode p = p\<lparr>OnlyApplyThisNode := None\<rparr>"

definition SetOnlyApplyThisNodeNextLevel ::
  "nid \<Rightarrow> 'a ParsingContext_scheme \<Rightarrow> 'a ParsingContext_scheme" where
  "SetOnlyApplyThisNodeNextLevel n p =
     p\<lparr>OnlyApplyThisNodeNextLevel := Some n, OnlyApplied := False\<rparr>"

text \<open>
  \<^verbatim>\<open>GetNextNodes\<close> returns the handlers to use, the closure to run when the caller
  returns, and the context as the call leaves it.
\<close>

definition GetNextNodes ::
  "nid list \<Rightarrow> 'a ParsingContext_scheme \<Rightarrow>
     nid list \<times> ('a ParsingContext_scheme \<Rightarrow> 'a ParsingContext_scheme) \<times> 'a ParsingContext_scheme" where
  "GetNextNodes n p =
     (case OnlyApplyThisNodeNextLevel p of
        None \<Rightarrow> (n, (\<lambda>q. q), p)
      | Some x \<Rightarrow>
          if OnlyApplied p then (n, (\<lambda>q. q), p)
          else ([x], (\<lambda>q. q\<lparr>OnlyApplied := False\<rparr>), p\<lparr>OnlyApplied := True\<rparr>))"


definition Push :: "'a ParsingContext_scheme \<Rightarrow> 'a ParsingContext_scheme" where
  "Push p = p\<lparr>Stack := Current p # Stack p, Current := INil\<rparr>"

text \<open>
  \<^verbatim>\<open>Pop\<close> reads \<^verbatim>\<open>p.Stack[0]\<close> without a length check: on an empty stack the index
  expression panics. It then calls \<^verbatim>\<open>GetName\<close> on the installed value when the type
  assertion succeeds, with no check for a \<^verbatim>\<open>nil\<close> pointer: that call panics on a
  \<^verbatim>\<open>nil\<close> receiver. A panic is the \<open>Inl\<close> result; the context is not returned then.
\<close>

definition Pop :: "'a ParsingContext_scheme \<Rightarrow> error + 'a ParsingContext_scheme" where
  "Pop p =
     (case Stack p of
        [] \<Rightarrow> Inl PanicIndexOutOfRange
      | x # xs \<Rightarrow>
          (let p1 = p\<lparr>Current := x, Stack := xs\<rparr>
           in case nameGetter (Current p1) of
                NameIs n \<Rightarrow> Inr (p1\<lparr>Name := n\<rparr>)
              | NamePanics \<Rightarrow> Inl PanicNilDereference
              | NotNameGetter \<Rightarrow> Inr p1))"

definition IsReset :: "'a ParsingContext_scheme \<Rightarrow> bool" where
  "IsReset p = (Current p = INil \<and> Name p = '''')"

definition Reset :: "'a ParsingContext_scheme \<Rightarrow> 'a ParsingContext_scheme" where
  "Reset p = p\<lparr>Current := INil, Name := ''''\<rparr>"

section \<open>Handlers and the trace of their calls\<close>

text \<open>
  An \<^verbatim>\<open>RDFNode\<close> has three methods, each of which may change the context and
  returns a "handled" flag and an error. The handlers themselves are not part of the two
  source files: a handler here is any triple of total functions of this type, so a
  statement proved for every table of handlers holds for whatever handlers are plugged in,
  as long as their calls return.
\<close>

record RDFNode =
  Enter :: "string \<Rightarrow> ParseState \<Rightarrow> (bool \<times> error option) \<times> ParseState"
  Exit :: "string \<Rightarrow> ParseState \<Rightarrow> (bool \<times> error option) \<times> ParseState"
  Apply :: "string \<Rightarrow> json \<Rightarrow> ParseState \<Rightarrow> (bool \<times> error option) \<times> ParseState"

text \<open>
  The engine's only effects are the calls it makes to handler methods. To state which
  calls are made and in which order, the state threaded through the engine is the state
  that handlers work on paired with the list of calls made so far: each entry names the
  handler, the method with its arguments, and what the handler returned. Handlers do not
  see that list.
\<close>

datatype call = CEnter string | CExit string | CApply string json

datatype event = Event (ev_node: nid) (ev_call: call) (ev_handled: bool) (ev_err: "error option")

type_synonym pstate = "ParseState \<times> event list"

definition callEnter :: "(nid \<Rightarrow> RDFNode) \<Rightarrow> nid \<Rightarrow> string \<Rightarrow> pstate \<Rightarrow> (bool \<times> error option) \<times> pstate" where
  "callEnter T node key s =
     (case Enter (T node) key (fst s) of
        ((applied, err), c) \<Rightarrow> ((applied, err), (c, snd s @ [Event node (CEnter key) applied err])))"

definition callExit :: "(nid \<Rightarrow> RDFNode) \<Rightarrow> nid \<Rightarrow> string \<Rightarrow> pstate \<Rightarrow> (bool \<times> error option) \<times> pstate" where
  "callExit T node key s =
     (case Exit (T node) key (fst s) of
        ((applied, err), c) \<Rightarrow> ((applied, err), (c, snd s @ [Event node (CExit key) applied err])))"

definition callApply ::
  "(nid \<Rightarrow> RDFNode) \<Rightarrow> nid \<Rightarrow> string \<Rightarrow> json \<Rightarrow> pstate \<Rightarrow> (bool \<times> error option) \<times> pstate" where
  "callApply T node key v s =
     (case Apply (T node) key v (fst s) of
        ((applied, err), c) \<Rightarrow> ((applied, err), (c, snd s @ [Event node (CApply key v) applied err])))"

section \<open>First-match dispatch\<close>

fun enterFirstNode :: "(nid \<Rightarrow> RDFNode) \<Rightarrow> nid list \<Rightarrow> string \<Rightarrow> pstate \<Rightarrow> error option \<times> pstate" where
  "enterFirstNode T [] key s = (Some (NoNodeEntering key), s)"
| "enterFirstNode T (node # nodes) key s =
     (case callEnter T node key s of
        ((applied, err), s') \<Rightarrow>
          if applied then (err, s')
          else if err \<noteq> None then (err, s')
          else enterFirstNode T nodes key s')"

fun exitFirstNode :: "(nid \<Rightarrow> RDFNode) \<Rightarrow> nid list \<Rightarrow> string \<Rightarrow> pstate \<Rightarrow> error option \<times> pstate" where
  "exitFirstNode T [] key s = (Some (NoNodeExiting key), s)"
| "exitFirstNode T (node # nodes) key s =
     (case callExit T node key s of
        ((applied, err), s') \<Rightarrow>
          if applied then (err, s')
          else if err \<noteq> None then (err, s')
          else exitFirstNode T nodes key s')"

fun applyFirstNode ::
  "(nid \<Rightarrow> RDFNode) \<Rightarrow> nid list \<Rightarrow> string \<Rightarrow> json \<Rightarrow> pstate \<Rightarrow> error option \<times> pstate" where
  "applyFirstNode T [] key v s = (Some (NoNodeApplying key v), s)"
| "applyFirstNode T (node # nodes) key v s =
     (case callApply T node key v s of
        ((applied, err), s') \<Rightarrow>
          if applied then (err, s')
          else if err \<noteq> None then (err, s')
          else applyFirstNode T nodes key v s')"

section \<open>Traversal\<close>

text \<open>
  The engine's idiom \<^verbatim>\<open>if err := f(...); err != nil { return err }\<close> followed by more
  code is \<open>andThen (f ...) rest\<close>: an error ends the function at once with the state
  as \<open>f\<close> left it, and otherwise \<open>rest\<close> runs from that state.
\<close>

definition andThen ::
  "error option \<times> pstate \<Rightarrow> (pstate \<Rightarrow> error option \<times> pstate) \<Rightarrow> error option \<times> pstate" where
  "andThen r rest = (case r of (Some e, s) \<Rightarrow> (Some e, s) | (None, s) \<Rightarrow> rest s)"

lemma andThen_cong [fundef_cong]:
  "r = r' \<Longrightarrow> (\<And>s. r' = (None, s) \<Longrightarrow> rest s = rest' s) \<Longrightarrow> andThen r rest = andThen r' rest'"
  by (auto simp: andThen_def split: prod.splits option.splits)

text \<open>
  \<^verbatim>\<open>apply\<close> (here \<open>apply_nodes\<close>, as \<open>apply\<close> is a keyword) and
  \<^verbatim>\<open>doApply\<close> call each other; the \<^verbatim>\<open>range\<close> loop of \<^verbatim>\<open>apply\<close> is
  \<open>applyRange\<close> and the loop over an array in \<^verbatim>\<open>doApply\<close> is \<open>doApplyArr\<close>. The
  deferred \<^verbatim>\<open>clearFn\<close> runs on the context as \<^verbatim>\<open>doApply\<close> leaves it, on every return
  path.
\<close>

function apply_nodes :: "(nid \<Rightarrow> RDFNode) \<Rightarrow> nid list \<Rightarrow> JSONLD \<Rightarrow> pstate \<Rightarrow> error option \<times> pstate"
  and applyRange :: "(nid \<Rightarrow> RDFNode) \<Rightarrow> nid list \<Rightarrow> JSONLD \<Rightarrow> pstate \<Rightarrow> error option \<times> pstate"
  and doApply :: "(nid \<Rightarrow> RDFNode) \<Rightarrow> nid list \<Rightarrow> string \<Rightarrow> json \<Rightarrow> pstate \<Rightarrow> error option \<times> pstate"
  and doApplyArr ::
    "(nid \<Rightarrow> RDFNode) \<Rightarrow> nid list \<Rightarrow> nid list \<Rightarrow> string \<Rightarrow> json list \<Rightarrow> pstate \<Rightarrow> error option \<times> pstate"
where
  "apply_nodes T nodes input s =
     (case OnlyApplyThisNode (fst s) of
        Some n \<Rightarrow>
          (case callApply T n '''' (JObject input) s of
             ((applied, err), s') \<Rightarrow>
               if \<not> applied then (Some RequestedNodeFailed, s') else (err, s'))
      | None \<Rightarrow>
          (case map_of input JSON_LD_TYPE of
             Some v \<Rightarrow>
               andThen (doApply T nodes JSON_LD_TYPE v s) (\<lambda>s'. applyRange T nodes input s')
           | None \<Rightarrow>
               (case map_of input JSON_LD_TYPE_AS of
                  Some v \<Rightarrow>
                    andThen (doApply T nodes JSON_LD_TYPE_AS v s) (\<lambda>s'. applyRange T nodes input s')
                | None \<Rightarrow> applyRange T nodes input s)))"
| "applyRange T nodes [] s = (None, s)"
| "applyRange T nodes ((k, v) # rest) s =
     (if k = JSON_LD_CONTEXT then applyRange T nodes rest s
      else if k = JSON_LD_TYPE then applyRange T nodes rest s
      else if k = JSON_LD_TYPE_AS then applyRange T nodes rest s
      else andThen (doApply T nodes k v s) (\<lambda>s'. applyRange T nodes rest s'))"
| "doApply T nodes k v s =
     (case GetNextNodes nodes (fst s) of
        (enterApplyExitNodes, clearFn, c) \<Rightarrow>
          (case (case v of
                   JObject mapValue \<Rightarrow>
                     andThen (enterFirstNode T enterApplyExitNodes k (c, snd s)) (\<lambda>s1.
                     andThen (apply_nodes T nodes mapValue s1) (\<lambda>s2.
                     exitFirstNode T enterApplyExitNodes k s2))
                 | JArray arrValue \<Rightarrow> doApplyArr T enterApplyExitNodes nodes k arrValue (c, snd s)
                 | JNull \<Rightarrow> applyFirstNode T enterApplyExitNodes k v (c, snd s)
                 | JBool _ \<Rightarrow> applyFirstNode T enterApplyExitNodes k v (c, snd s)
                 | JNumber _ \<Rightarrow> applyFirstNode T enterApplyExitNodes k v (c, snd s)
                 | JString _ \<Rightarrow> applyFirstNode T enterApplyExitNodes k v (c, snd s)) of
             (err, s3) \<Rightarrow> (err, (clearFn (fst s3), snd s3))))"
| "doApplyArr T enterApplyExitNodes recurNodes k [] s = (None, s)"
| "doApplyArr T enterApplyExitNodes recurNodes k (val # vals) s =
     andThen (enterFirstNode T enterApplyExitNodes k s) (\<lambda>s1.
     andThen (case val of
                JObject mapValue \<Rightarrow> apply_nodes T recurNodes mapValue s1
              | JArray _ \<Rightarrow> applyFirstNode T enterApplyExitNodes k val s1
              | JNull \<Rightarrow> applyFirstNode T enterApplyExitNodes k val s1
              | JBool _ \<Rightarrow> applyFirstNode T enterApplyExitNodes k val s1
              | JNumber _ \<Rightarrow> applyFirstNode T enterApplyExitNodes k val s1
              | JString _ \<Rightarrow> applyFirstNode T enterApplyExitNodes k val s1) (\<lambda>s2.
     andThen (exitFirstNode T enterApplyExitNodes k s2) (\<lambda>s3.
     doApplyArr T enterApplyExitNodes recurNodes k vals s3)))"
  by pat_completeness auto

lemma map_of_size:
  "map_of input k = Some v \<Longrightarrow> size v < size_list (size_prod (\<lambda>_. 0) size) input"
  by (induction input) (auto split: if_splits)

termination apply_nodes
  apply (relation "measure (\<lambda>x. case x of
            Inl (Inl (T, nodes, input, s)) \<Rightarrow> 2 * size (JObject input) + 1
          | Inl (Inr (T, nodes, input, s)) \<Rightarrow> 2 * size (JObject input)
          | Inr (Inl (T, nodes, k, v, s)) \<Rightarrow> 2 * size v + 2
          | Inr (Inr (T, en, nodes, k, arr, s)) \<Rightarrow> 2 * size (JArray arr) + 1)")
  apply (auto dest: map_of_size)
  done

declare apply_nodes.simps [simp del] doApply.simps [simp del]

section \<open>Resolving \<^verbatim>\<open>@context\<close>\<close>

text \<open>
  The registry (\<^verbatim>\<open>RDFRegistry\<close>) and \<^verbatim>\<open>jsonLDNodes\<close> are not part of the two
  source files: the three lookups the resolver calls are the fields of a record, each
  returning the pair of a handler list and an error as the Go methods do, and
  \<^verbatim>\<open>jsonLDNodes\<close> is a parameter of \<open>ParseVocabulary\<close>.
\<close>

record RDFRegistry =
  getFor :: "string \<Rightarrow> nid list \<times> error option"
  getAliased :: "string \<Rightarrow> string \<Rightarrow> nid list \<times> error option"
  getAliasedObject :: "string \<Rightarrow> JSONLD \<Rightarrow> nid list \<times> error option"

text \<open>
  \<^verbatim>\<open>parseJSONLDContext\<close> has the named results \<^verbatim>\<open>nodes\<close> and \<^verbatim>\<open>err\<close>; a bare
  \<^verbatim>\<open>return\<close> returns both as they stand. The loops carry \<^verbatim>\<open>nodes\<close> as an
  accumulator. \<open>ctxArrayDict\<close> is the loop over a dictionary that is an element of the
  array, \<open>ctxArray\<close> the loop over the array, \<open>ctxDict\<close> the loop over a
  dictionary-valued \<^verbatim>\<open>@context\<close>.
\<close>

fun ctxArrayDict :: "RDFRegistry \<Rightarrow> JSONLD \<Rightarrow> nid list \<Rightarrow> nid list \<times> error option" where
  "ctxArrayDict registry [] nodes = (nodes, None)"
| "ctxArrayDict registry ((alias, val) # rest) nodes =
     (case val of
        JString s \<Rightarrow>
          (case getAliased registry alias s of
             (n, Some e) \<Rightarrow> (nodes, Some e)
           | (n, None) \<Rightarrow> ctxArrayDict registry rest (nodes @ n))
      | JObject aliasedMap \<Rightarrow>
          (case getAliasedObject registry alias aliasedMap of
             (n, Some e) \<Rightarrow> (nodes, Some e)
           | (n, None) \<Rightarrow> ctxArrayDict registry rest (nodes @ n))
      | _ \<Rightarrow> (nodes, Some CtxDictInArrayValue))"

fun ctxArray :: "RDFRegistry \<Rightarrow> json list \<Rightarrow> nid list \<Rightarrow> nid list \<times> error option" where
  "ctxArray registry [] nodes = (nodes, None)"
| "ctxArray registry (iVal # rest) nodes =
     (case iVal of
        JObject valMap \<Rightarrow>
          (case ctxArrayDict registry valMap nodes of
             (nodes', Some e) \<Rightarrow> (nodes', Some e)
           | (nodes', None) \<Rightarrow> ctxArray registry rest nodes')
      | JString s \<Rightarrow>
          (case getFor registry s of
             (n, Some e) \<Rightarrow> (nodes, Some e)
           | (n, None) \<Rightarrow> ctxArray registry rest (nodes @ n))
      | _ \<Rightarrow> (nodes, Some CtxArrayValue))"

fun ctxDict :: "RDFRegistry \<Rightarrow> JSONLD \<Rightarrow> nid list \<Rightarrow> nid list \<times> error option" where
  "ctxDict registry [] nodes = (nodes, None)"
| "ctxDict registry ((alias, iVal) # rest) nodes =
     (case iVal of
        JString s \<Rightarrow>
          (case getAliased registry alias s of
             (n, Some e) \<Rightarrow> (nodes, Some e)
           | (n, None) \<Rightarrow> ctxDict registry rest (nodes @ n))
      | JObject aliasedMap \<Rightarrow>
          (case getAliasedObject registry alias aliasedMap of
             (n, Some e) \<Rightarrow> (nodes, Some e)
           | (n, None) \<Rightarrow> ctxDict registry rest (nodes @ n))
      | _ \<Rightarrow> (nodes, Some CtxDictValue))"

text \<open>
  In the last branch (\<^verbatim>\<open>@context\<close> is neither an array nor a dictionary) the source
  reads
  \<^verbatim>\<open>s, ok := i.(string); if !ok { err = fmt.Errorf(...) }; return registry.getFor(s)\<close>:
  a failed assertion leaves \<^verbatim>\<open>s\<close> the empty string and assigns \<^verbatim>\<open>err\<close>, and the
  \<^verbatim>\<open>return\<close> with operands then sets both results from \<^verbatim>\<open>getFor\<close>.
\<close>

definition parseJSONLDContext :: "RDFRegistry \<Rightarrow> JSONLD \<Rightarrow> nid list \<times> error option" where
  "parseJSONLDContext registry input =
     (case map_of input JSON_LD_CONTEXT of
        None \<Rightarrow> ([], Some NoContext)
      | Some i \<Rightarrow>
          (case i of
             JArray inArray \<Rightarrow> ctxArray registry inArray []
           | JObject inMap \<Rightarrow> ctxDict registry inMap []
           | JString s \<Rightarrow> getFor registry s
           | _ \<Rightarrow>
               (let s = ''''; err = Some CtxSingleNotString
                in getFor registry s)))"

section \<open>\<^verbatim>\<open>ParseVocabulary\<close>\<close>

definition emptyVocabulary :: Vocabulary where
  "emptyVocabulary = \<lparr>Types = Map.empty, Properties = Map.empty, Values = Map.empty\<rparr>"

definition emptyParsedVocabulary :: ParsedVocabulary where
  "emptyParsedVocabulary = \<lparr>Vocab = emptyVocabulary, References = Map.empty\<rparr>"

text \<open>
  \<^verbatim>\<open>vocabulary = &ParsedVocabulary{}\<close> allocates a new, empty object: it is the object
  at \<open>vocabularyAddr\<close> of a memory whose other objects (which handlers may use as further
  allocations) are empty as well. \<^verbatim>\<open>&ParsingContext{Result: vocabulary}\<close> is a context
  whose \<^verbatim>\<open>Result\<close> is that pointer and whose other fields are zero.
\<close>

definition vocabularyAddr :: addr where
  "vocabularyAddr = 0"

definition newParseState :: ParseState where
  "newParseState =
     \<lparr>Result = Some vocabularyAddr, Current = INil, Name = '''', Stack = [],
      OnlyApplyThisNodeNextLevel = None, OnlyApplied = False, OnlyApplyThisNode = None,
      Memory = (\<lambda>a. emptyParsedVocabulary)\<rparr>"

text \<open>
  The results are the named results \<^verbatim>\<open>vocabulary\<close> and \<^verbatim>\<open>err\<close>. The first is
  \<open>None\<close> for the \<^verbatim>\<open>nil\<close> pointer, and otherwise \<open>Some v\<close> for the pointer that
  \<^verbatim>\<open>ParseVocabulary\<close> allocated, \<open>v\<close> being what the object behind it holds when the
  function returns. The function returns its own variable \<^verbatim>\<open>vocabulary\<close> and never
  reads \<^verbatim>\<open>ctx.Result\<close>: what a handler writes through \<^verbatim>\<open>ctx.Result\<close> reaches the
  caller only as long as the field still points to that object.
\<close>

definition ParseVocabulary ::
  "(nid \<Rightarrow> RDFNode) \<Rightarrow> (RDFRegistry \<Rightarrow> nid list) \<Rightarrow> RDFRegistry \<Rightarrow> JSONLD
     \<Rightarrow> ParsedVocabulary option \<times> error option" where
  "ParseVocabulary T jsonLDNodes registry input =
     (case parseJSONLDContext registry input of
        (nodes, Some e) \<Rightarrow> (None, Some e)
      | (nodes, None) \<Rightarrow>
          (case apply_nodes T (jsonLDNodes registry @ nodes) input (newParseState, []) of
             (err, s) \<Rightarrow> (Some (Memory (fst s) vocabularyAddr), err)))"

section \<open>Notions used to state the properties\<close>

text \<open>
  A handler call \<open>declined\<close> when the handler reported "not handled" and no error.
  \<open>first_match nodes c unrecognized evs r\<close> describes one first-match search over
  \<open>nodes\<close> for the call \<open>c\<close>: \<open>evs\<close> are the calls made and \<open>r\<close> the error returned.
  The handlers called are an initial segment of \<open>nodes\<close>, in order, each called with
  \<open>c\<close>; every call but the last declined; and either the last call did not decline and
  its error is the result, or every handler of the list was called and declined and the
  result is the error \<open>unrecognized\<close>.
\<close>

definition declined :: "event \<Rightarrow> bool" where
  "declined e = (\<not> ev_handled e \<and> ev_err e = None)"

definition first_match :: "nid list \<Rightarrow> call \<Rightarrow> error \<Rightarrow> event list \<Rightarrow> error option \<Rightarrow> bool" where
  "first_match nodes c unrecognized evs r =
     (map ev_node evs = take (length evs) nodes \<and>
      list_all (\<lambda>e. ev_call e = c) evs \<and>
      list_all declined (butlast evs) \<and>
      (if evs \<noteq> [] \<and> \<not> declined (last evs) then r = ev_err (last evs)
       else length evs = length nodes \<and> r = Some unrecognized))"



text \<open>
  The type key of an object level (\<^verbatim>\<open>@type\<close>, or \<^verbatim>\<open>type\<close> when there is no
  \<^verbatim>\<open>@type\<close>) with its value; the entries left for the remaining-keys pass; and the
  dispatch of every entry of a list in turn, stopping at the first error.
\<close>

definition typeKey :: "JSONLD \<Rightarrow> (string \<times> json) option" where
  "typeKey input =
     (case map_of input JSON_LD_TYPE of
        Some v \<Rightarrow> Some (JSON_LD_TYPE, v)
      | None \<Rightarrow>
          (case map_of input JSON_LD_TYPE_AS of
             Some v \<Rightarrow> Some (JSON_LD_TYPE_AS, v)
           | None \<Rightarrow> None))"

definition remainingKeys :: "JSONLD \<Rightarrow> JSONLD" where
  "remainingKeys input =
     filter (\<lambda>kv. fst kv \<noteq> JSON_LD_CONTEXT \<and> fst kv \<noteq> JSON_LD_TYPE \<and> fst kv \<noteq> JSON_LD_TYPE_AS) input"

fun dispatchEach :: "(nid \<Rightarrow> RDFNode) \<Rightarrow> nid list \<Rightarrow> JSONLD \<Rightarrow> pstate \<Rightarrow> error option \<times> pstate" where
  "dispatchEach T nodes [] s = (None, s)"
| "dispatchEach T nodes ((k, v) # rest) s =
     andThen (doApply T nodes k v s) (\<lambda>s'. dispatchEach T nodes rest s')"




text \<open>
  One method call offered to the handlers of a list in turn, each in the state the
  previous one left: \<open>allDecline m hs c\<close> says that every handler of \<open>hs\<close> reports "not
  handled" and no error, and \<open>stateAfter m hs c\<close> is the state after the last of them.
  The call \<open>m\<close> is given as a function of the handler, for instance
  \<open>\<lambda>h. Enter (T h) key\<close>. \<open>declinedCalls c hs\<close> are the trace entries of such calls.
\<close>

fun allDecline ::
  "(nid \<Rightarrow> ParseState \<Rightarrow> (bool \<times> error option) \<times> ParseState) \<Rightarrow> nid list \<Rightarrow> ParseState \<Rightarrow> bool" where
  "allDecline m [] c = True"
| "allDecline m (h # hs) c = (fst (m h c) = (False, None) \<and> allDecline m hs (snd (m h c)))"

fun stateAfter ::
  "(nid \<Rightarrow> ParseState \<Rightarrow> (bool \<times> error option) \<times> ParseState) \<Rightarrow> nid list \<Rightarrow> ParseState \<Rightarrow> ParseState" where
  "stateAfter m [] c = c"
| "stateAfter m (h # hs) c = stateAfter m hs (snd (m h c))"

definition declinedCalls :: "call \<Rightarrow> nid list \<Rightarrow> event list" where
  "declinedCalls c hs = map (\<lambda>h. Event h c False None) hs"

text \<open>
  What the registry answers for an array-valued \<^verbatim>\<open>@context\<close>, stated with the registry's
  lookups alone. An entry of a dictionary is looked up by alias and name when its value is
  a string, and by alias and object when its value is a dictionary. An element of the
  array resolves when it is a string that the registry resolves by name, or a dictionary
  all of whose entries the registry resolves; its handlers are those of the name, or those
  of the entries one after the other in the order the dictionary is iterated.
\<close>

definition entryNodes :: "RDFRegistry \<Rightarrow> string \<times> json \<Rightarrow> nid list \<times> error option" where
  "entryNodes registry e =
     (case snd e of
        JString s \<Rightarrow> getAliased registry (fst e) s
      | JObject objectSpec \<Rightarrow> getAliasedObject registry (fst e) objectSpec
      | _ \<Rightarrow> ([], Some CtxDictInArrayValue))"

definition elementResolves :: "RDFRegistry \<Rightarrow> json \<Rightarrow> bool" where
  "elementResolves registry iVal =
     (case iVal of
        JString s \<Rightarrow> snd (getFor registry s) = None
      | JObject entries \<Rightarrow> list_all (\<lambda>e. snd (entryNodes registry e) = None) entries
      | _ \<Rightarrow> False)"

definition elementHandlers :: "RDFRegistry \<Rightarrow> json \<Rightarrow> nid list" where
  "elementHandlers registry iVal =
     (case iVal of
        JString s \<Rightarrow> fst (getFor registry s)
      | JObject entries \<Rightarrow> concat (map (\<lambda>e. fst (entryNodes registry e)) entries)
      | _ \<Rightarrow> [])"

section \<open>Example handlers, registry and documents\<close>

definition noteType :: VocabularyType where
  "noteType = \<lparr>Name_t = ''Note'', URI_t = None, Notes_t = '''', DisjointWith = [], Extends = [],
     Properties_t = [], WithoutProperties = [], Examples_t = []\<rparr>"

definition noRef :: VocabularyReference where
  "noRef = \<lparr>Name_r = '''', URI_r = None, Vocab_r = ''''\<rparr>"

definition nameProperty :: VocabularyProperty where
  "nameProperty = \<lparr>Name_p = ''name'', URI_p = None, Notes_p = '''', Domain = [], Range = [],
     Examples_p = [], SubpropertyOf = noRef, Functional = False, NaturalLanguageMap = True\<rparr>"

definition stringValue :: VocabularyValue where
  "stringValue = \<lparr>Name_v = ''string'', URI_v = None, DefinitionType = ''string'', Zero = ''''\<rparr>"

definition noteVocabulary :: Vocabulary where
  "noteVocabulary =
     \<lparr>Types = [''Note'' \<mapsto> noteType], Properties = [''name'' \<mapsto> nameProperty],
      Values = [''string'' \<mapsto> stringValue]\<rparr>"

text \<open>A handler that handles every call and changes nothing.\<close>

definition acceptAll :: RDFNode where
  "acceptAll =
     \<lparr>Enter = (\<lambda>k c. ((True, None), c)),
      Exit = (\<lambda>k c. ((True, None), c)),
      Apply = (\<lambda>k v c. ((True, None), c))\<rparr>"

text \<open>A handler that declines every call.\<close>

definition declineAll :: RDFNode where
  "declineAll =
     \<lparr>Enter = (\<lambda>k c. ((False, None), c)),
      Exit = (\<lambda>k c. ((False, None), c)),
      Apply = (\<lambda>k v c. ((False, None), c))\<rparr>"

text \<open>
  A handler for the key \<^verbatim>\<open>names\<close>: each string applied under that key is registered,
  through \<open>SetType\<close>, as a type of the vocabulary that \<^verbatim>\<open>ctx.Result\<close> points to; the
  handler returns the error of \<open>SetType\<close>.
\<close>

definition typeAdder :: RDFNode where
  "typeAdder =
     \<lparr>Enter = (\<lambda>k c. ((k = ''names'', None), c)),
      Exit = (\<lambda>k c. ((k = ''names'', None), c)),
      Apply = (\<lambda>k v c.
        (case v of
           JString n \<Rightarrow>
             if k = ''names'' then
               (case Result c of
                  None \<Rightarrow> ((True, Some (External ''no result'')), c)
                | Some a \<Rightarrow>
                    (case SetType n (noteType\<lparr>Name_t := n\<rparr>) (Vocab (Memory c a)) of
                       (err, voc) \<Rightarrow>
                         ((True, err), c\<lparr>Memory := (Memory c)(a := (Memory c a)\<lparr>Vocab := voc\<rparr>)\<rparr>)))
             else ((False, None), c)
         | _ \<Rightarrow> ((False, None), c)))\<rparr>"

text \<open>
  A handler for the same key that first makes \<^verbatim>\<open>ctx.Result\<close> point to another object
  (the one at address 1) and registers the type there.
\<close>

definition rebinder :: RDFNode where
  "rebinder =
     \<lparr>Enter = (\<lambda>k c. ((k = ''names'', None), c)),
      Exit = (\<lambda>k c. ((k = ''names'', None), c)),
      Apply = (\<lambda>k v c.
        (case v of
           JString n \<Rightarrow>
             if k = ''names'' then
               (case SetType n (noteType\<lparr>Name_t := n\<rparr>) (Vocab (Memory c 1)) of
                  (err, voc) \<Rightarrow>
                    ((True, err),
                     c\<lparr>Result := Some 1, Memory := (Memory c)(1 := (Memory c 1)\<lparr>Vocab := voc\<rparr>)\<rparr>))
             else ((False, None), c)
         | _ \<Rightarrow> ((False, None), c)))\<rparr>"

text \<open>A handler whose \<^verbatim>\<open>Apply\<close> reports "not handled" together with an error of its own.\<close>

definition refuser :: RDFNode where
  "refuser =
     \<lparr>Enter = (\<lambda>k c. ((False, None), c)),
      Exit = (\<lambda>k c. ((False, None), c)),
      Apply = (\<lambda>k v c. ((False, Some (External ''boom'')), c))\<rparr>"

definition demoNodes :: "nid \<Rightarrow> RDFNode" where
  "demoNodes n =
     (if n = 0 then acceptAll
      else if n = 2 then typeAdder
      else if n = 3 then refuser
      else if n = 7 then rebinder
      else declineAll)"

text \<open>
  A registry that knows the ontologies \<^verbatim>\<open>A\<close> (handlers 1 and 2), \<^verbatim>\<open>B\<close> (handler 3)
  and \<^verbatim>\<open>C\<close> (handler 7), the alias \<^verbatim>\<open>ex\<close> for a name (handler 5) and the alias
  \<^verbatim>\<open>obj\<close> for an object (handler 6); the built-in handlers are the single handler 4.
\<close>

definition demoRegistry :: RDFRegistry where
  "demoRegistry =
     \<lparr>getFor = (\<lambda>s. if s = ''A'' then ([1, 2], None)
                    else if s = ''B'' then ([3], None)
                    else if s = ''C'' then ([7], None)
                    else ([], Some (External s))),
      getAliased = (\<lambda>alias s. if alias = ''ex'' then ([5], None) else ([], Some (External alias))),
      getAliasedObject =
        (\<lambda>alias m. if alias = ''obj'' then ([6], None) else ([], Some (External alias)))\<rparr>"

definition demoBuiltins :: "RDFRegistry \<Rightarrow> nid list" where
  "demoBuiltins registry = [4]"

definition demoContext :: ParseState where
  "demoContext = newParseState"

text \<open>A registry that resolves every name to handler 0, and the result that holds the one type \<^verbatim>\<open>Note\<close>.\<close>

definition anyNameRegistry :: RDFRegistry where
  "anyNameRegistry =
     \<lparr>getFor = (\<lambda>s. ([0], None)),
      getAliased = (\<lambda>alias s. ([0], None)),
      getAliasedObject = (\<lambda>alias m. ([0], None))\<rparr>"

definition noteOnly :: ParsedVocabulary where
  "noteOnly =
     \<lparr>Vocab = \<lparr>Types = [''Note'' \<mapsto> noteType], Properties = Map.empty, Values = Map.empty\<rparr>,
      References = Map.empty\<rparr>"

text \<open>Documents.\<close>

definition abInput :: JSONLD where
  "abInput = [(''@context'', JArray [JString ''A'', JString ''B'']), (''k'', JString ''x'')]"

definition mixedContext :: "json list" where
  "mixedContext =
     [JString ''A'',
      JObject [(''ex'', JString ''https://example.com/ns#''),
               (''obj'', JObject [(''@id'', JString ''https://example.com/ns#'')])],
      JString ''B'']"

definition mixedInput :: JSONLD where
  "mixedInput = [(''k'', JString ''x''), (''@context'', JArray mixedContext)]"

definition namesInput :: JSONLD where
  "namesInput = [(''@context'', JString ''A''), (''names'', JArray [JString ''Note'', JString ''Note''])]"

definition rebindInput :: JSONLD where
  "rebindInput = [(''@context'', JString ''C''), (''names'', JArray [JString ''Note''])]"

definition typedInput :: JSONLD where
  "typedInput = [(''name'', JString ''x''), (''@context'', JString ''A''), (''@type'', JString ''Note'')]"

definition typedInput' :: JSONLD where
  "typedInput' = [(''@type'', JString ''Note''), (''name'', JString ''x''), (''@context'', JString ''A'')]"

lemmas demo_simps = demoNodes_def acceptAll_def declineAll_def typeAdder_def refuser_def
  rebinder_def callApply_def callEnter_def callExit_def GetNextNodes_def
  SetOnlyApplyThisNodeNextLevel_def SetOnlyApplyThisNode_def demoContext_def newParseState_def
  vocabularyAddr_def andThen_def JSON_LD_CONTEXT_def JSON_LD_TYPE_def JSON_LD_TYPE_AS_def
  apply_nodes.simps doApply.simps

section \<open>The vocabulary setters\<close>

text \<open>
  C7. For each of the three kinds of entity (Type, Property, Value): a setter called with
  a name that the kind's mapping already holds returns an error and leaves the vocabulary
  as it was, so the entry stored under that name is not overwritten; called with a name
  the mapping does not hold, it returns no error and the mapping afterwards is the old
  one with exactly this entry added. This holds for every vocabulary, hence for every
  order of earlier insertions.
\<close>

theorem set_entity_unique_names:
  "(Types v name \<noteq> None \<longrightarrow>
      SetType name a v = (Some (TypeNameExists name), v)) \<and>
   (Types v name = None \<longrightarrow>
      SetType name a v = (None, v\<lparr>Types := (Types v)(name \<mapsto> a)\<rparr>)) \<and>
   (Properties v name \<noteq> None \<longrightarrow>
      SetProperty name b v = (Some PropertyNameExists, v)) \<and>
   (Properties v name = None \<longrightarrow>
      SetProperty name b v = (None, v\<lparr>Properties := (Properties v)(name \<mapsto> b)\<rparr>)) \<and>
   (Values v name \<noteq> None \<longrightarrow>
      SetValue name c v = (Some ValueNameExists, v)) \<and>
   (Values v name = None \<longrightarrow>
      SetValue name c v = (None, v\<lparr>Values := (Values v)(name \<mapsto> c)\<rparr>))"
  by (auto simp: SetType_def SetProperty_def SetValue_def)

theorem set_entity_unique_names_witness:
  "SetType ''Note'' noteType noteVocabulary = (Some (TypeNameExists ''Note''), noteVocabulary) \<and>
   SetType ''Link'' noteType noteVocabulary =
     (None, noteVocabulary\<lparr>Types := (Types noteVocabulary)(''Link'' \<mapsto> noteType)\<rparr>) \<and>
   SetProperty ''name'' nameProperty noteVocabulary = (Some PropertyNameExists, noteVocabulary) \<and>
   SetProperty ''url'' nameProperty noteVocabulary =
     (None, noteVocabulary\<lparr>Properties := (Properties noteVocabulary)(''url'' \<mapsto> nameProperty)\<rparr>) \<and>
   SetValue ''string'' stringValue noteVocabulary = (Some ValueNameExists, noteVocabulary) \<and>
   SetValue ''float'' stringValue noteVocabulary =
     (None, noteVocabulary\<lparr>Values := (Values noteVocabulary)(''float'' \<mapsto> stringValue)\<rparr>)"
proof -
  have present: "Types noteVocabulary ''Note'' \<noteq> None" "Properties noteVocabulary ''name'' \<noteq> None"
    "Values noteVocabulary ''string'' \<noteq> None"
    by (simp_all add: noteVocabulary_def)
  have fresh: "Types noteVocabulary ''Link'' = None" "Properties noteVocabulary ''url'' = None"
    "Values noteVocabulary ''float'' = None"
    by (simp_all add: noteVocabulary_def)
  have 1: "SetType ''Note'' noteType noteVocabulary = (Some (TypeNameExists ''Note''), noteVocabulary)"
    using set_entity_unique_names [of noteVocabulary "''Note''" noteType nameProperty stringValue]
      present(1) by simp
  have 2: "SetType ''Link'' noteType noteVocabulary =
     (None, noteVocabulary\<lparr>Types := (Types noteVocabulary)(''Link'' \<mapsto> noteType)\<rparr>)"
    using set_entity_unique_names [of noteVocabulary "''Link''" noteType nameProperty stringValue]
      fresh(1) by simp
  have 3: "SetProperty ''name'' nameProperty noteVocabulary = (Some PropertyNameExists, noteVocabulary)"
    using set_entity_unique_names [of noteVocabulary "''name''" noteType nameProperty stringValue]
      present(2) by simp
  have 4: "SetProperty ''url'' nameProperty noteVocabulary =
     (None, noteVocabulary\<lparr>Properties := (Properties noteVocabulary)(''url'' \<mapsto> nameProperty)\<rparr>)"
    using set_entity_unique_names [of noteVocabulary "''url''" noteType nameProperty stringValue]
      fresh(2) by simp
  have 5: "SetValue ''string'' stringValue noteVocabulary = (Some ValueNameExists, noteVocabulary)"
    using set_entity_unique_names [of noteVocabulary "''string''" noteType nameProperty stringValue]
      present(3) by simp
  have 6: "SetValue ''float'' stringValue noteVocabulary =
     (None, noteVocabulary\<lparr>Values := (Values noteVocabulary)(''float'' \<mapsto> stringValue)\<rparr>)"
    using set_entity_unique_names [of noteVocabulary "''float''" noteType nameProperty stringValue]
      fresh(3) by simp
  from 1 2 3 4 5 6 show ?thesis by (intro conjI)
qed

section \<open>The scope stack\<close>

text \<open>
  C10, as the code has it. \<open>Pop\<close> has two preconditions, neither of which it checks.
  On an empty stack it does not return a context but panics with an index out of range (it
  is no silent no-op, and it has no error result). On a non-empty stack it installs the
  front of the stack as \<open>Current\<close> and removes it from the stack; if the installed value
  has a \<^verbatim>\<open>GetName\<close> method the method is called, and when the value is a \<^verbatim>\<open>nil\<close>
  pointer of an entity type (or the method panics otherwise) \<open>Pop\<close> panics; when the
  call returns, \<open>Name\<close> is set to the name; a value without the method leaves \<open>Name\<close>
  as it was. In particular \<open>Pop\<close> after \<open>Push\<close> gives back the context before the
  \<open>Push\<close>, up to that refresh of \<open>Name\<close>, unless \<open>Current\<close> was such a value
  whose \<^verbatim>\<open>GetName\<close> panics.
\<close>

theorem pop_preconditions:
  "(Stack p = [] \<longrightarrow> Pop p = Inl PanicIndexOutOfRange) \<and>
   (Stack p \<noteq> [] \<longrightarrow>
      Pop p =
        (case nameGetter (hd (Stack p)) of
           NamePanics \<Rightarrow> Inl PanicNilDereference
         | NameIs n \<Rightarrow> Inr (p\<lparr>Current := hd (Stack p), Stack := tl (Stack p), Name := n\<rparr>)
         | NotNameGetter \<Rightarrow> Inr (p\<lparr>Current := hd (Stack p), Stack := tl (Stack p)\<rparr>))) \<and>
   Pop (Push p) =
     (case nameGetter (Current p) of
        NamePanics \<Rightarrow> Inl PanicNilDereference
      | NameIs n \<Rightarrow> Inr (p\<lparr>Name := n\<rparr>)
      | NotNameGetter \<Rightarrow> Inr p)"
  by (cases "Stack p"; cases "nameGetter (Current p)")
     (auto simp: Pop_def Push_def Let_def split: nameResult.splits)

theorem pop_preconditions_witness:
  "Pop demoContext = Inl PanicIndexOutOfRange \<and>
   Pop (demoContext\<lparr>Stack := [PType (Some noteType), IOther JNull], Name := ''x''\<rparr>) =
     Inr (demoContext\<lparr>Current := PType (Some noteType), Stack := [IOther JNull], Name := ''Note''\<rparr>) \<and>
   Pop (demoContext\<lparr>Stack := [IOther JNull], Name := ''x''\<rparr>) =
     Inr (demoContext\<lparr>Current := IOther JNull, Stack := [], Name := ''x''\<rparr>) \<and>
   Pop (Push (demoContext\<lparr>Current := PType (Some noteType)\<rparr>)) =
     Inr (demoContext\<lparr>Current := PType (Some noteType), Name := ''Note''\<rparr>)"
proof -
  have 1: "Pop demoContext = Inl PanicIndexOutOfRange"
    using pop_preconditions [of demoContext]
    by (simp add: demoContext_def newParseState_def)
  have 2: "Pop (demoContext\<lparr>Stack := [PType (Some noteType), IOther JNull], Name := ''x''\<rparr>) =
     Inr (demoContext\<lparr>Current := PType (Some noteType), Stack := [IOther JNull], Name := ''Note''\<rparr>)"
    using pop_preconditions
      [of "demoContext\<lparr>Stack := [PType (Some noteType), IOther JNull], Name := ''x''\<rparr>"]
    by (simp add: noteType_def)
  have 3: "Pop (demoContext\<lparr>Stack := [IOther JNull], Name := ''x''\<rparr>) =
     Inr (demoContext\<lparr>Current := IOther JNull, Stack := [], Name := ''x''\<rparr>)"
    using pop_preconditions [of "demoContext\<lparr>Stack := [IOther JNull], Name := ''x''\<rparr>"]
    by simp
  have 4: "Pop (Push (demoContext\<lparr>Current := PType (Some noteType)\<rparr>)) =
     Inr (demoContext\<lparr>Current := PType (Some noteType), Name := ''Note''\<rparr>)"
    using pop_preconditions [of "demoContext\<lparr>Current := PType (Some noteType)\<rparr>"]
    by (simp add: noteType_def)
  from 1 2 3 4 show ?thesis by (intro conjI)
qed

text \<open>
  C10 as the specification words it (on every non-empty stack \<open>Pop\<close> after \<open>Push\<close>
  restores \<open>Current\<close>) fails: with the \<^verbatim>\<open>nil\<close> pointer of type
  \<^verbatim>\<open>*VocabularyType\<close> in \<open>Current\<close>, the stack after \<open>Push\<close> is not empty and
  \<open>Pop\<close> panics in \<^verbatim>\<open>GetName\<close>.
\<close>

theorem pop_preconditions_counterexample:
  "Stack (Push (demoContext\<lparr>Current := PType None\<rparr>)) = [PType None] \<and>
   Pop (Push (demoContext\<lparr>Current := PType None\<rparr>)) = Inl PanicNilDereference"
  by (simp add: Pop_def Push_def demoContext_def newParseState_def)

section \<open>First-match dispatch: properties\<close>

lemma first_match_Nil: "first_match [] c u [] (Some u)"
  by (simp add: first_match_def)

lemma first_match_stop:
  "\<not> declined (Event n c a e) \<Longrightarrow> first_match (n # ns) c u [Event n c a e] e"
  by (simp add: first_match_def)

lemma first_match_step:
  "first_match ns c u evs r \<Longrightarrow> first_match (n # ns) c u (Event n c False None # evs) r"
  by (cases evs) (auto simp: first_match_def declined_def)

lemma enter_first_match:
  "\<exists>evs. snd (snd (enterFirstNode T nodes key s)) = snd s @ evs \<and>
     first_match nodes (CEnter key) (NoNodeEntering key) evs (fst (enterFirstNode T nodes key s))"
proof (induction nodes arbitrary: s)
  case Nil
  show ?case by (simp add: first_match_Nil)
next
  case (Cons n ns)
  obtain a e c where h: "Enter (T n) key (fst s) = ((a, e), c)"
    by (metis prod.exhaust)
  show ?case
  proof (cases "a \<or> e \<noteq> None")
    case True
    then have "\<not> declined (Event n (CEnter key) a e)"
      by (auto simp: declined_def)
    from first_match_stop [OF this] True h show ?thesis
      by (auto simp: callEnter_def)
  next
    case False
    let ?s1 = "(c, snd s @ [Event n (CEnter key) False None])"
    from Cons.IH [of ?s1] obtain evs where
      "snd (snd (enterFirstNode T ns key ?s1)) = snd ?s1 @ evs"
      "first_match ns (CEnter key) (NoNodeEntering key) evs (fst (enterFirstNode T ns key ?s1))"
      by auto
    with False h first_match_step show ?thesis
      by (auto simp: callEnter_def)
  qed
qed

lemma exit_first_match:
  "\<exists>evs. snd (snd (exitFirstNode T nodes key s)) = snd s @ evs \<and>
     first_match nodes (CExit key) (NoNodeExiting key) evs (fst (exitFirstNode T nodes key s))"
proof (induction nodes arbitrary: s)
  case Nil
  show ?case by (simp add: first_match_Nil)
next
  case (Cons n ns)
  obtain a e c where h: "Exit (T n) key (fst s) = ((a, e), c)"
    by (metis prod.exhaust)
  show ?case
  proof (cases "a \<or> e \<noteq> None")
    case True
    then have "\<not> declined (Event n (CExit key) a e)"
      by (auto simp: declined_def)
    from first_match_stop [OF this] True h show ?thesis
      by (auto simp: callExit_def)
  next
    case False
    let ?s1 = "(c, snd s @ [Event n (CExit key) False None])"
    from Cons.IH [of ?s1] obtain evs where
      "snd (snd (exitFirstNode T ns key ?s1)) = snd ?s1 @ evs"
      "first_match ns (CExit key) (NoNodeExiting key) evs (fst (exitFirstNode T ns key ?s1))"
      by auto
    with False h first_match_step show ?thesis
      by (auto simp: callExit_def)
  qed
qed

lemma apply_first_match:
  "\<exists>evs. snd (snd (applyFirstNode T nodes key v s)) = snd s @ evs \<and>
     first_match nodes (CApply key v) (NoNodeApplying key v) evs (fst (applyFirstNode T nodes key v s))"
proof (induction nodes arbitrary: s)
  case Nil
  show ?case by (simp add: first_match_Nil)
next
  case (Cons n ns)
  obtain a e c where h: "Apply (T n) key v (fst s) = ((a, e), c)"
    by (metis prod.exhaust)
  show ?case
  proof (cases "a \<or> e \<noteq> None")
    case True
    then have "\<not> declined (Event n (CApply key v) a e)"
      by (auto simp: declined_def)
    from first_match_stop [OF this] True h show ?thesis
      by (auto simp: callApply_def)
  next
    case False
    let ?s1 = "(c, snd s @ [Event n (CApply key v) False None])"
    from Cons.IH [of ?s1] obtain evs where
      "snd (snd (applyFirstNode T ns key v ?s1)) = snd ?s1 @ evs"
      "first_match ns (CApply key v) (NoNodeApplying key v) evs (fst (applyFirstNode T ns key v ?s1))"
      by auto
    with False h first_match_step show ?thesis
      by (auto simp: callApply_def)
  qed
qed

lemma enter_first_handled:
  "allDecline (\<lambda>h. Enter (T h) key) pre c \<Longrightarrow>
   Enter (T n) key (stateAfter (\<lambda>h. Enter (T h) key) pre c) = ((a, e), c') \<Longrightarrow>
   a \<or> e \<noteq> None \<Longrightarrow>
   enterFirstNode T (pre @ n # post) key (c, tr) =
     (e, (c', tr @ declinedCalls (CEnter key) pre @ [Event n (CEnter key) a e]))"
proof (induction pre arbitrary: c tr)
  case Nil
  then show ?case by (auto simp: callEnter_def declinedCalls_def)
next
  case (Cons h pre)
  obtain c1 where h: "Enter (T h) key c = ((False, None), c1)"
    using Cons.prems(1) by (cases "Enter (T h) key c") auto
  with Cons.prems have "allDecline (\<lambda>h. Enter (T h) key) pre c1"
    and "Enter (T n) key (stateAfter (\<lambda>h. Enter (T h) key) pre c1) = ((a, e), c')"
    by simp_all
  from Cons.IH [OF this Cons.prems(3), of "tr @ [Event h (CEnter key) False None]"] h
  show ?case by (simp add: callEnter_def declinedCalls_def)
qed

lemma enter_all_decline:
  "allDecline (\<lambda>h. Enter (T h) key) nodes c \<Longrightarrow>
   enterFirstNode T nodes key (c, tr) =
     (Some (NoNodeEntering key),
      (stateAfter (\<lambda>h. Enter (T h) key) nodes c, tr @ declinedCalls (CEnter key) nodes))"
proof (induction nodes arbitrary: c tr)
  case Nil
  show ?case by (simp add: declinedCalls_def)
next
  case (Cons h nodes)
  obtain c1 where h: "Enter (T h) key c = ((False, None), c1)"
    using Cons.prems(1) by (cases "Enter (T h) key c") auto
  with Cons.prems have "allDecline (\<lambda>h. Enter (T h) key) nodes c1" by simp
  from Cons.IH [OF this, of "tr @ [Event h (CEnter key) False None]"] h
  show ?case by (simp add: callEnter_def declinedCalls_def)
qed

lemma apply_first_handled:
  "allDecline (\<lambda>h. Apply (T h) key v) pre c \<Longrightarrow>
   Apply (T n) key v (stateAfter (\<lambda>h. Apply (T h) key v) pre c) = ((a, e), c') \<Longrightarrow>
   a \<or> e \<noteq> None \<Longrightarrow>
   applyFirstNode T (pre @ n # post) key v (c, tr) =
     (e, (c', tr @ declinedCalls (CApply key v) pre @ [Event n (CApply key v) a e]))"
proof (induction pre arbitrary: c tr)
  case Nil
  then show ?case by (auto simp: callApply_def declinedCalls_def)
next
  case (Cons h pre)
  obtain c1 where h: "Apply (T h) key v c = ((False, None), c1)"
    using Cons.prems(1) by (cases "Apply (T h) key v c") auto
  with Cons.prems have "allDecline (\<lambda>h. Apply (T h) key v) pre c1"
    and "Apply (T n) key v (stateAfter (\<lambda>h. Apply (T h) key v) pre c1) = ((a, e), c')"
    by simp_all
  from Cons.IH [OF this Cons.prems(3), of "tr @ [Event h (CApply key v) False None]"] h
  show ?case by (simp add: callApply_def declinedCalls_def)
qed

lemma apply_all_decline:
  "allDecline (\<lambda>h. Apply (T h) key v) nodes c \<Longrightarrow>
   applyFirstNode T nodes key v (c, tr) =
     (Some (NoNodeApplying key v),
      (stateAfter (\<lambda>h. Apply (T h) key v) nodes c, tr @ declinedCalls (CApply key v) nodes))"
proof (induction nodes arbitrary: c tr)
  case Nil
  show ?case by (simp add: declinedCalls_def)
next
  case (Cons h nodes)
  obtain c1 where h: "Apply (T h) key v c = ((False, None), c1)"
    using Cons.prems(1) by (cases "Apply (T h) key v c") auto
  with Cons.prems have "allDecline (\<lambda>h. Apply (T h) key v) nodes c1" by simp
  from Cons.IH [OF this, of "tr @ [Event h (CApply key v) False None]"] h
  show ?case by (simp add: callApply_def declinedCalls_def)
qed

lemma exit_first_handled:
  "allDecline (\<lambda>h. Exit (T h) key) pre c \<Longrightarrow>
   Exit (T n) key (stateAfter (\<lambda>h. Exit (T h) key) pre c) = ((a, e), c') \<Longrightarrow>
   a \<or> e \<noteq> None \<Longrightarrow>
   exitFirstNode T (pre @ n # post) key (c, tr) =
     (e, (c', tr @ declinedCalls (CExit key) pre @ [Event n (CExit key) a e]))"
proof (induction pre arbitrary: c tr)
  case Nil
  then show ?case by (auto simp: callExit_def declinedCalls_def)
next
  case (Cons h pre)
  obtain c1 where h: "Exit (T h) key c = ((False, None), c1)"
    using Cons.prems(1) by (cases "Exit (T h) key c") auto
  with Cons.prems have "allDecline (\<lambda>h. Exit (T h) key) pre c1"
    and "Exit (T n) key (stateAfter (\<lambda>h. Exit (T h) key) pre c1) = ((a, e), c')"
    by simp_all
  from Cons.IH [OF this Cons.prems(3), of "tr @ [Event h (CExit key) False None]"] h
  show ?case by (simp add: callExit_def declinedCalls_def)
qed

lemma exit_all_decline:
  "allDecline (\<lambda>h. Exit (T h) key) nodes c \<Longrightarrow>
   exitFirstNode T nodes key (c, tr) =
     (Some (NoNodeExiting key),
      (stateAfter (\<lambda>h. Exit (T h) key) nodes c, tr @ declinedCalls (CExit key) nodes))"
proof (induction nodes arbitrary: c tr)
  case Nil
  show ?case by (simp add: declinedCalls_def)
next
  case (Cons h nodes)
  obtain c1 where h: "Exit (T h) key c = ((False, None), c1)"
    using Cons.prems(1) by (cases "Exit (T h) key c") auto
  with Cons.prems have "allDecline (\<lambda>h. Exit (T h) key) nodes c1" by simp
  from Cons.IH [OF this, of "tr @ [Event h (CExit key) False None]"] h
  show ?case by (simp add: callExit_def declinedCalls_def)
qed

lemma first_not_declining:
  "allDecline m nodes c \<or>
   (\<exists>pre n post. nodes = pre @ n # post \<and> allDecline m pre c \<and>
      fst (m n (stateAfter m pre c)) \<noteq> (False, None))"
proof (induction nodes arbitrary: c)
  case Nil
  show ?case by simp
next
  case (Cons h nodes)
  show ?case
  proof (cases "fst (m h c) = (False, None)")
    case False
    then have "h # nodes = [] @ h # nodes \<and> allDecline m [] c \<and>
        fst (m h (stateAfter m [] c)) \<noteq> (False, None)"
      by simp
    then show ?thesis by blast
  next
    case True
    from Cons.IH [of "snd (m h c)"] show ?thesis
    proof
      assume "allDecline m nodes (snd (m h c))"
      with True show ?thesis by simp
    next
      assume "\<exists>pre n post. nodes = pre @ n # post \<and> allDecline m pre (snd (m h c)) \<and>
        fst (m n (stateAfter m pre (snd (m h c)))) \<noteq> (False, None)"
      then obtain pre n post where "nodes = pre @ n # post" "allDecline m pre (snd (m h c))"
        "fst (m n (stateAfter m pre (snd (m h c)))) \<noteq> (False, None)"
        by blast
      with True have "h # nodes = (h # pre) @ n # post \<and> allDecline m (h # pre) c \<and>
          fst (m n (stateAfter m (h # pre) c)) \<noteq> (False, None)"
        by simp
      then show ?thesis by blast
    qed
  qed
qed

lemma enter_dispatch:
  "(allDecline (\<lambda>h. Enter (T h) key) pre c \<and>
    Enter (T n) key (stateAfter (\<lambda>h. Enter (T h) key) pre c) = ((a, e), c') \<and>
    (a \<or> e \<noteq> None) \<longrightarrow>
      enterFirstNode T (pre @ n # post) key (c, tr) =
        (e, (c', tr @ declinedCalls (CEnter key) pre @ [Event n (CEnter key) a e]))) \<and>
   (allDecline (\<lambda>h. Enter (T h) key) nodes c \<longrightarrow>
      enterFirstNode T nodes key (c, tr) =
        (Some (NoNodeEntering key),
         (stateAfter (\<lambda>h. Enter (T h) key) nodes c, tr @ declinedCalls (CEnter key) nodes)))"
proof (intro conjI impI)
  assume "allDecline (\<lambda>h. Enter (T h) key) pre c \<and>
    Enter (T n) key (stateAfter (\<lambda>h. Enter (T h) key) pre c) = ((a, e), c') \<and>
    (a \<or> e \<noteq> None)"
  then show "enterFirstNode T (pre @ n # post) key (c, tr) =
        (e, (c', tr @ declinedCalls (CEnter key) pre @ [Event n (CEnter key) a e]))"
    by (elim conjE) (rule enter_first_handled)
next
  assume "allDecline (\<lambda>h. Enter (T h) key) nodes c"
  then show "enterFirstNode T nodes key (c, tr) =
        (Some (NoNodeEntering key),
         (stateAfter (\<lambda>h. Enter (T h) key) nodes c, tr @ declinedCalls (CEnter key) nodes))"
    by (rule enter_all_decline)
qed

lemma apply_dispatch:
  "(allDecline (\<lambda>h. Apply (T h) key v) pre c \<and>
    Apply (T n) key v (stateAfter (\<lambda>h. Apply (T h) key v) pre c) = ((a, e), c') \<and>
    (a \<or> e \<noteq> None) \<longrightarrow>
      applyFirstNode T (pre @ n # post) key v (c, tr) =
        (e, (c', tr @ declinedCalls (CApply key v) pre @ [Event n (CApply key v) a e]))) \<and>
   (allDecline (\<lambda>h. Apply (T h) key v) nodes c \<longrightarrow>
      applyFirstNode T nodes key v (c, tr) =
        (Some (NoNodeApplying key v),
         (stateAfter (\<lambda>h. Apply (T h) key v) nodes c, tr @ declinedCalls (CApply key v) nodes)))"
proof (intro conjI impI)
  assume "allDecline (\<lambda>h. Apply (T h) key v) pre c \<and>
    Apply (T n) key v (stateAfter (\<lambda>h. Apply (T h) key v) pre c) = ((a, e), c') \<and>
    (a \<or> e \<noteq> None)"
  then show "applyFirstNode T (pre @ n # post) key v (c, tr) =
        (e, (c', tr @ declinedCalls (CApply key v) pre @ [Event n (CApply key v) a e]))"
    by (elim conjE) (rule apply_first_handled)
next
  assume "allDecline (\<lambda>h. Apply (T h) key v) nodes c"
  then show "applyFirstNode T nodes key v (c, tr) =
        (Some (NoNodeApplying key v),
         (stateAfter (\<lambda>h. Apply (T h) key v) nodes c, tr @ declinedCalls (CApply key v) nodes))"
    by (rule apply_all_decline)
qed

lemma exit_dispatch:
  "(allDecline (\<lambda>h. Exit (T h) key) pre c \<and>
    Exit (T n) key (stateAfter (\<lambda>h. Exit (T h) key) pre c) = ((a, e), c') \<and>
    (a \<or> e \<noteq> None) \<longrightarrow>
      exitFirstNode T (pre @ n # post) key (c, tr) =
        (e, (c', tr @ declinedCalls (CExit key) pre @ [Event n (CExit key) a e]))) \<and>
   (allDecline (\<lambda>h. Exit (T h) key) nodes c \<longrightarrow>
      exitFirstNode T nodes key (c, tr) =
        (Some (NoNodeExiting key),
         (stateAfter (\<lambda>h. Exit (T h) key) nodes c, tr @ declinedCalls (CExit key) nodes)))"
proof (intro conjI impI)
  assume "allDecline (\<lambda>h. Exit (T h) key) pre c \<and>
    Exit (T n) key (stateAfter (\<lambda>h. Exit (T h) key) pre c) = ((a, e), c') \<and>
    (a \<or> e \<noteq> None)"
  then show "exitFirstNode T (pre @ n # post) key (c, tr) =
        (e, (c', tr @ declinedCalls (CExit key) pre @ [Event n (CExit key) a e]))"
    by (elim conjE) (rule exit_first_handled)
next
  assume "allDecline (\<lambda>h. Exit (T h) key) nodes c"
  then show "exitFirstNode T nodes key (c, tr) =
        (Some (NoNodeExiting key),
         (stateAfter (\<lambda>h. Exit (T h) key) nodes c, tr @ declinedCalls (CExit key) nodes))"
    by (rule exit_all_decline)
qed

text \<open>
  C6. Each of the three dispatch operations, over whatever handler list is active, is a
  first-match search, stated here on what the handlers' methods return. Take the handlers
  of the list in order, each called with the key (and value) in the state the previous one
  left. If the handlers before \<open>n\<close> all report "not handled" and no error, and \<open>n\<close>
  reports "handled" or an error, the search stops at \<open>n\<close>: the result is the error
  \<open>n\<close> returned (none, if it returned none), the state is the one \<open>n\<close> left, the
  handlers after \<open>n\<close> are not called, and the trace gains exactly the calls to the
  handlers up to \<open>n\<close>. If every handler of the list reports "not handled" and no error,
  the result is the error that names the key, and for \<^verbatim>\<open>Apply\<close> also the value, after
  every handler has been called once. One of the two cases always holds.
\<close>

theorem first_match_dispatch:
  "(allDecline (\<lambda>h. Enter (T h) key) pre c \<and>
    Enter (T n) key (stateAfter (\<lambda>h. Enter (T h) key) pre c) = ((a, e), c') \<and>
    (a \<or> e \<noteq> None) \<longrightarrow>
      enterFirstNode T (pre @ n # post) key (c, tr) =
        (e, (c', tr @ declinedCalls (CEnter key) pre @ [Event n (CEnter key) a e]))) \<and>
   (allDecline (\<lambda>h. Enter (T h) key) nodes c \<longrightarrow>
      enterFirstNode T nodes key (c, tr) =
        (Some (NoNodeEntering key),
         (stateAfter (\<lambda>h. Enter (T h) key) nodes c, tr @ declinedCalls (CEnter key) nodes))) \<and>
   (allDecline (\<lambda>h. Apply (T h) key v) pre c \<and>
    Apply (T n) key v (stateAfter (\<lambda>h. Apply (T h) key v) pre c) = ((a, e), c') \<and>
    (a \<or> e \<noteq> None) \<longrightarrow>
      applyFirstNode T (pre @ n # post) key v (c, tr) =
        (e, (c', tr @ declinedCalls (CApply key v) pre @ [Event n (CApply key v) a e]))) \<and>
   (allDecline (\<lambda>h. Apply (T h) key v) nodes c \<longrightarrow>
      applyFirstNode T nodes key v (c, tr) =
        (Some (NoNodeApplying key v),
         (stateAfter (\<lambda>h. Apply (T h) key v) nodes c, tr @ declinedCalls (CApply key v) nodes))) \<and>
   (allDecline (\<lambda>h. Exit (T h) key) pre c \<and>
    Exit (T n) key (stateAfter (\<lambda>h. Exit (T h) key) pre c) = ((a, e), c') \<and>
    (a \<or> e \<noteq> None) \<longrightarrow>
      exitFirstNode T (pre @ n # post) key (c, tr) =
        (e, (c', tr @ declinedCalls (CExit key) pre @ [Event n (CExit key) a e]))) \<and>
   (allDecline (\<lambda>h. Exit (T h) key) nodes c \<longrightarrow>
      exitFirstNode T nodes key (c, tr) =
        (Some (NoNodeExiting key),
         (stateAfter (\<lambda>h. Exit (T h) key) nodes c, tr @ declinedCalls (CExit key) nodes))) \<and>
   (allDecline m nodes c \<or>
    (\<exists>pre n post. nodes = pre @ n # post \<and> allDecline m pre c \<and>
       fst (m n (stateAfter m pre c)) \<noteq> (False, None)))"
proof -
  note E = enter_dispatch [of T key pre c n a e c' post tr nodes]
  note A = apply_dispatch [of T key v pre c n a e c' post tr nodes]
  note X = exit_dispatch [of T key pre c n a e c' post tr nodes]
  show ?thesis
    by (intro conjI)
       (rule E [THEN conjunct1], rule E [THEN conjunct2],
        rule A [THEN conjunct1], rule A [THEN conjunct2],
        rule X [THEN conjunct1], rule X [THEN conjunct2],
        rule first_not_declining)
qed

theorem first_match_dispatch_witness:
  "enterFirstNode demoNodes ([1] @ 0 # [3]) ''k'' (demoContext, []) =
     (None, demoContext, [Event 1 (CEnter ''k'') False None, Event 0 (CEnter ''k'') True None]) \<and>
   applyFirstNode demoNodes ([1] @ 3 # [0]) ''k'' (JString ''x'') (demoContext, []) =
     (Some (External ''boom''), demoContext,
      [Event 1 (CApply ''k'' (JString ''x'')) False None,
       Event 3 (CApply ''k'' (JString ''x'')) False (Some (External ''boom''))]) \<and>
   exitFirstNode demoNodes [1, 4] ''k'' (demoContext, []) =
     (Some (NoNodeExiting ''k''), demoContext,
      [Event 1 (CExit ''k'') False None, Event 4 (CExit ''k'') False None])"
proof -
  note th = first_match_dispatch [where T = demoNodes and key = "''k''" and c = demoContext
      and tr = "[]" and v = "JString ''x''" and pre = "[1]" and c' = demoContext
      and nodes = "[1, 4]"]
  have d1: "allDecline (\<lambda>h. Enter (demoNodes h) ''k'') [1] demoContext"
    by (simp add: demoNodes_def declineAll_def)
  have h1: "Enter (demoNodes 0) ''k'' (stateAfter (\<lambda>h. Enter (demoNodes h) ''k'') [1] demoContext) =
      ((True, None), demoContext)"
    by (simp add: demoNodes_def declineAll_def acceptAll_def)
  from th [where n = 0 and a = True and e = None and post = "[3]", THEN conjunct1] d1 h1
  have 1: "enterFirstNode demoNodes ([1] @ 0 # [3]) ''k'' (demoContext, []) =
     (None, demoContext, [Event 1 (CEnter ''k'') False None, Event 0 (CEnter ''k'') True None])"
    by (simp add: declinedCalls_def)
  have d2: "allDecline (\<lambda>h. Apply (demoNodes h) ''k'' (JString ''x'')) [1] demoContext"
    by (simp add: demoNodes_def declineAll_def)
  have h2: "Apply (demoNodes 3) ''k'' (JString ''x'')
      (stateAfter (\<lambda>h. Apply (demoNodes h) ''k'' (JString ''x'')) [1] demoContext) =
      ((False, Some (External ''boom'')), demoContext)"
    by (simp add: demoNodes_def declineAll_def refuser_def)
  from th [where n = 3 and a = False and e = "Some (External ''boom'')" and post = "[0]",
      THEN conjunct2, THEN conjunct2, THEN conjunct1] d2 h2
  have 2: "applyFirstNode demoNodes ([1] @ 3 # [0]) ''k'' (JString ''x'') (demoContext, []) =
     (Some (External ''boom''), demoContext,
      [Event 1 (CApply ''k'' (JString ''x'')) False None,
       Event 3 (CApply ''k'' (JString ''x'')) False (Some (External ''boom''))])"
    by (simp add: declinedCalls_def)
  have d3: "allDecline (\<lambda>h. Exit (demoNodes h) ''k'') [1, 4] demoContext"
    by (simp add: demoNodes_def declineAll_def)
  have s3: "stateAfter (\<lambda>h. Exit (demoNodes h) ''k'') [1, 4] demoContext = demoContext"
    by (simp add: demoNodes_def declineAll_def)
  from th [where n = 0 and a = True and e = None and post = "[]", THEN conjunct2, THEN conjunct2,
      THEN conjunct2, THEN conjunct2, THEN conjunct2, THEN conjunct1] d3 s3
  have 3: "exitFirstNode demoNodes [1, 4] ''k'' (demoContext, []) =
     (Some (NoNodeExiting ''k''), demoContext,
      [Event 1 (CExit ''k'') False None, Event 4 (CExit ''k'') False None])"
    by (simp add: declinedCalls_def)
  from 1 2 3 show ?thesis by (intro conjI)
qed

section \<open>The trace only grows\<close>

text \<open>
  No operation of the engine removes or changes an entry of the trace: the trace before
  an operation is a prefix of the trace after it.
\<close>

lemma enter_prefix: "prefix (snd s) (snd (snd (enterFirstNode T nodes k s)))"
  using enter_first_match [of T nodes k s] by (auto simp: prefix_def)

lemma exit_prefix: "prefix (snd s) (snd (snd (exitFirstNode T nodes k s)))"
  using exit_first_match [of T nodes k s] by (auto simp: prefix_def)

lemma apply_prefix: "prefix (snd s) (snd (snd (applyFirstNode T nodes k v s)))"
  using apply_first_match [of T nodes k v s] by (auto simp: prefix_def)

lemma callApply_prefix: "prefix (snd s) (snd (snd (callApply T n k v s)))"
  by (simp add: callApply_def split: prod.splits)

lemma andThen_prefix:
  assumes "prefix t (snd (snd r))"
    and "\<And>s. r = (None, s) \<Longrightarrow> prefix (snd s) (snd (snd (rest s)))"
  shows "prefix t (snd (snd (andThen r rest)))"
proof -
  obtain e s where r: "r = (e, s)" by (metis prod.exhaust)
  show ?thesis
  proof (cases e)
    case None
    with r assms(2) [of s] assms(1) show ?thesis
      by (auto simp: andThen_def intro: prefix_order.trans)
  next
    case (Some a)
    with r assms(1) show ?thesis by (simp add: andThen_def)
  qed
qed

lemma trace_grows:
  "prefix (snd s) (snd (snd (apply_nodes T nodes input s)))"
  "prefix (snd s) (snd (snd (applyRange T nodes input s)))"
  "prefix (snd s) (snd (snd (doApply T nodes k v s)))"
  "prefix (snd s) (snd (snd (doApplyArr T en nodes k vals s)))"
proof (induction T nodes input s and T nodes input s and T nodes k v s and T en nodes k vals s
    rule: apply_nodes_applyRange_doApply_doApplyArr.induct)
  case (1 T nodes input s)
  show ?case
  proof (cases "OnlyApplyThisNode (fst s)")
    case (Some n)
    with callApply_prefix [of s T n "''''" "JObject input"] show ?thesis
      by (auto simp: apply_nodes.simps split: prod.splits)
  next
    case None
    note ov = None
    show ?thesis
    proof (cases "map_of input JSON_LD_TYPE")
      case (Some v)
      have "prefix (snd s) (snd (snd (andThen (doApply T nodes JSON_LD_TYPE v s)
              (\<lambda>s'. applyRange T nodes input s'))))"
        by (rule andThen_prefix) (rule 1(4) [OF ov Some], rule 1(5) [OF ov Some])
      with ov Some show ?thesis by (simp add: apply_nodes.simps)
    next
      case None
      note ty = None
      show ?thesis
      proof (cases "map_of input JSON_LD_TYPE_AS")
        case (Some v)
        have "prefix (snd s) (snd (snd (andThen (doApply T nodes JSON_LD_TYPE_AS v s)
                (\<lambda>s'. applyRange T nodes input s'))))"
          by (rule andThen_prefix) (rule 1(2) [OF ov ty Some], rule 1(3) [OF ov ty Some])
        with ov ty Some show ?thesis by (simp add: apply_nodes.simps)
      next
        case None
        with ov ty 1(1) show ?thesis by (simp add: apply_nodes.simps)
      qed
    qed
  qed
next
  case (2 T nodes s)
  show ?case by simp
next
  case (3 T nodes k v rest s)
  then show ?case
    by (simp add: andThen_prefix)
next
  case (4 T nodes k v s)
  obtain en clearFn c where g: "GetNextNodes nodes (fst s) = (en, clearFn, c)"
    by (metis prod.exhaust)
  have "prefix (snd s) (snd (snd (case v of
                   JObject mapValue \<Rightarrow>
                     andThen (enterFirstNode T en k (c, snd s)) (\<lambda>s1.
                     andThen (apply_nodes T nodes mapValue s1) (\<lambda>s2.
                     exitFirstNode T en k s2))
                 | JArray arrValue \<Rightarrow> doApplyArr T en nodes k arrValue (c, snd s)
                 | _ \<Rightarrow> applyFirstNode T en k v (c, snd s))))"
  proof (cases v)
    case (JObject m)
    have "prefix (snd s) (snd (snd (andThen (enterFirstNode T en k (c, snd s)) (\<lambda>s1.
                     andThen (apply_nodes T nodes m s1) (\<lambda>s2.
                     exitFirstNode T en k s2)))))"
    proof (rule andThen_prefix)
      show "prefix (snd s) (snd (snd (enterFirstNode T en k (c, snd s))))"
        using enter_prefix [of "(c, snd s)" T en k] by simp
    next
      fix s1 assume e: "enterFirstNode T en k (c, snd s) = (None, s1)"
      show "prefix (snd s1) (snd (snd (andThen (apply_nodes T nodes m s1) (\<lambda>s2. exitFirstNode T en k s2))))"
      proof (rule andThen_prefix)
        show "prefix (snd s1) (snd (snd (apply_nodes T nodes m s1)))"
          using 4(2) [OF g [symmetric] refl JObject e] .
      qed (rule exit_prefix)
    qed
    with JObject show ?thesis by simp
  next
    case (JArray arr)
    with 4(1) [OF g [symmetric] refl JArray] show ?thesis by simp
  qed (use apply_prefix [of "(c, snd s)" T en k v] in simp_all)
  with g show ?case
    by (auto simp: doApply.simps split: prod.splits)
next
  case (5 T en nodes k s)
  show ?case by simp
next
  case (6 T en nodes k val vals s)
  have mid: "prefix (snd s1) (snd (snd (case val of
                JObject mapValue \<Rightarrow> apply_nodes T nodes mapValue s1
              | _ \<Rightarrow> applyFirstNode T en k val s1)))"
    if "enterFirstNode T en k s = (None, s1)" for s1
    using 6(1) [OF that] by (cases val) (simp_all add: apply_prefix)
  show ?case
    by (auto intro!: andThen_prefix enter_prefix exit_prefix mid 6(2))
qed

section \<open>The next-level-only override\<close>













section \<open>The whole-document override\<close>

text \<open>
  C8, as the code has it. When the whole-document override is set at the start of an
  object level, \<^verbatim>\<open>apply\<close> makes exactly one call, \<^verbatim>\<open>Apply\<close> of that handler with
  the empty key and the whole object as value; there is no type pre-pass and no walk of
  the object, and the context is the one the handler returned. If the handler reports
  "handled", its error (if any) is the result; if it reports "not handled", the result is
  the error "applying requested node failed", whatever error the handler returned.
\<close>

theorem whole_document_override:
  assumes "OnlyApplyThisNode (fst s) = Some n"
  shows "apply_nodes T nodes input s =
     (case Apply (T n) '''' (JObject input) (fst s) of
        ((applied, err), c) \<Rightarrow>
          (if applied then err else Some RequestedNodeFailed,
           (c, snd s @ [Event n (CApply '''' (JObject input)) applied err])))"
  using assms by (auto simp: apply_nodes.simps callApply_def split: prod.splits)

theorem whole_document_override_witness:
  "apply_nodes demoNodes [1] [(''@type'', JString ''Note''), (''a'', JObject [(''b'', JNull)])]
       (SetOnlyApplyThisNode 0 demoContext, []) =
     (None, SetOnlyApplyThisNode 0 demoContext,
      [Event 0 (CApply '''' (JObject [(''@type'', JString ''Note''), (''a'', JObject [(''b'', JNull)])]))
         True None])"
proof -
  have "OnlyApplyThisNode (fst (SetOnlyApplyThisNode 0 demoContext, [])) = Some 0"
    by (simp add: SetOnlyApplyThisNode_def)
  from whole_document_override [OF this, of demoNodes "[1]"
      "[(''@type'', JString ''Note''), (''a'', JObject [(''b'', JNull)])]"]
  show ?thesis by (simp add: demoNodes_def acceptAll_def)
qed

text \<open>
  C8 as the specification words it (any failure the handler returns reaches the caller)
  fails where the handler returns an error without "handled": handler
  3 returns the error \<^verbatim>\<open>boom\<close>, and the caller gets "applying requested node failed"
  instead.
\<close>

theorem whole_document_override_counterexample:
  "apply_nodes demoNodes [0] [(''a'', JString ''x'')] (SetOnlyApplyThisNode 3 demoContext, []) =
     (Some RequestedNodeFailed, SetOnlyApplyThisNode 3 demoContext,
      [Event 3 (CApply '''' (JObject [(''a'', JString ''x'')])) False (Some (External ''boom''))])"
  by (simp add: demo_simps)

section \<open>Context resolution and \<^verbatim>\<open>ParseVocabulary\<close>\<close>

lemma ctxArrayDict_entries:
  "list_all (\<lambda>e. snd (entryNodes registry e) = None) m \<Longrightarrow>
   ctxArrayDict registry m acc =
     (acc @ concat (map (\<lambda>e. fst (entryNodes registry e)) m), None)"
proof (induction m arbitrary: acc)
  case Nil
  show ?case by simp
next
  case (Cons kv m)
  obtain al val where kv: "kv = (al, val)" by (metis prod.exhaust)
  from Cons.prems have ok: "snd (entryNodes registry (al, val)) = None"
    and rest: "list_all (\<lambda>e. snd (entryNodes registry e) = None) m"
    by (simp_all add: kv)
  show ?case
  proof (cases val)
    case (JString x)
    obtain n e where g: "getAliased registry al x = (n, e)" by (metis prod.exhaust)
    with ok JString have "e = None" by (simp add: entryNodes_def)
    with g kv JString Cons.IH [OF rest, of "acc @ n"] show ?thesis
      by (simp add: entryNodes_def)
  next
    case (JObject x)
    obtain n e where g: "getAliasedObject registry al x = (n, e)" by (metis prod.exhaust)
    with ok JObject have "e = None" by (simp add: entryNodes_def)
    with g kv JObject Cons.IH [OF rest, of "acc @ n"] show ?thesis
      by (simp add: entryNodes_def)
  qed (use ok in \<open>simp_all add: entryNodes_def\<close>)
qed

lemma ctxArray_concat:
  "list_all (elementResolves registry) elems \<Longrightarrow>
   ctxArray registry elems acc = (acc @ concat (map (elementHandlers registry) elems), None)"
proof (induction elems arbitrary: acc)
  case Nil
  show ?case by simp
next
  case (Cons iVal elems)
  from Cons.prems have ok: "elementResolves registry iVal"
    and rest: "list_all (elementResolves registry) elems"
    by simp_all
  show ?case
  proof (cases iVal)
    case (JString x)
    obtain n e where g: "getFor registry x = (n, e)" by (metis prod.exhaust)
    with ok JString have "e = None" by (simp add: elementResolves_def)
    with g JString Cons.IH [OF rest, of "acc @ n"] show ?thesis
      by (simp add: elementHandlers_def)
  next
    case (JObject m)
    from ok JObject have "list_all (\<lambda>e. snd (entryNodes registry e) = None) m"
      by (simp add: elementResolves_def)
    from ctxArrayDict_entries [OF this, of acc] JObject
      Cons.IH [OF rest, of "acc @ concat (map (\<lambda>e. fst (entryNodes registry e)) m)"]
    show ?thesis
      by (simp add: elementHandlers_def)
  qed (use ok in \<open>simp_all add: elementResolves_def\<close>)
qed

text \<open>
  C9. When \<^verbatim>\<open>@context\<close> is an array each of whose elements resolves, the resolved
  handler list is the concatenation, in the order of the array, of the handlers of each
  element: those the registry returns for the name when the element is a string, and those
  it returns for the entries of the element, one after the other, when the element is a
  dictionary (for \<^verbatim>\<open>["A", "B"]\<close> the handlers of \<^verbatim>\<open>A\<close> come before those of
  \<^verbatim>\<open>B\<close>, so that first-match dispatch reaches them first). Whenever context resolution
  succeeds, whatever the shape of \<^verbatim>\<open>@context\<close>, the traversal runs with the built-in
  handlers in front of the resolved ones.
\<close>

theorem context_array_order:
  "(map_of input JSON_LD_CONTEXT = Some (JArray elems) \<and>
    list_all (elementResolves registry) elems \<longrightarrow>
      parseJSONLDContext registry input =
        (concat (map (elementHandlers registry) elems), None)) \<and>
   (snd (parseJSONLDContext registry input) = None \<longrightarrow>
      ParseVocabulary T jsonLDNodes registry input =
        (case apply_nodes T (jsonLDNodes registry @ fst (parseJSONLDContext registry input)) input
                (newParseState, []) of
           (err, s) \<Rightarrow> (Some (Memory (fst s) vocabularyAddr), err)))"
proof (intro conjI impI)
  assume "map_of input JSON_LD_CONTEXT = Some (JArray elems) \<and>
    list_all (elementResolves registry) elems"
  with ctxArray_concat [of registry elems "[]"]
  show "parseJSONLDContext registry input =
        (concat (map (elementHandlers registry) elems), None)"
    by (simp add: parseJSONLDContext_def)
next
  assume "snd (parseJSONLDContext registry input) = None"
  then show "ParseVocabulary T jsonLDNodes registry input =
        (case apply_nodes T (jsonLDNodes registry @ fst (parseJSONLDContext registry input)) input
                (newParseState, []) of
           (err, s) \<Rightarrow> (Some (Memory (fst s) vocabularyAddr), err))"
    by (cases "parseJSONLDContext registry input") (simp add: ParseVocabulary_def)
qed

theorem context_array_order_witness:
  "parseJSONLDContext demoRegistry abInput = ([1, 2] @ [3], None) \<and>
   parseJSONLDContext demoRegistry mixedInput = ([1, 2] @ ([5] @ [6]) @ [3], None) \<and>
   ParseVocabulary demoNodes demoBuiltins demoRegistry mixedInput =
     (case apply_nodes demoNodes ([4] @ [1, 2, 5, 6, 3]) mixedInput (newParseState, []) of
        (err, s) \<Rightarrow> (Some (Memory (fst s) vocabularyAddr), err))"
proof -
  have c: "map_of abInput JSON_LD_CONTEXT = Some (JArray [JString ''A'', JString ''B''])"
    by (simp add: abInput_def JSON_LD_CONTEXT_def)
  have ok: "list_all (elementResolves demoRegistry) [JString ''A'', JString ''B'']"
    by (simp add: elementResolves_def demoRegistry_def)
  from context_array_order [where input = abInput and registry = demoRegistry
      and elems = "[JString ''A'', JString ''B'']", THEN conjunct1] c ok
  have 1: "parseJSONLDContext demoRegistry abInput = ([1, 2] @ [3], None)"
    by (simp add: elementHandlers_def demoRegistry_def)
  have c': "map_of mixedInput JSON_LD_CONTEXT = Some (JArray mixedContext)"
    by (simp add: mixedInput_def JSON_LD_CONTEXT_def)
  have ok': "list_all (elementResolves demoRegistry) mixedContext"
    by (simp add: elementResolves_def entryNodes_def demoRegistry_def mixedContext_def)
  have hs: "concat (map (elementHandlers demoRegistry) mixedContext) = [1, 2] @ ([5] @ [6]) @ [3]"
    by (simp add: elementHandlers_def entryNodes_def demoRegistry_def mixedContext_def)
  note th = context_array_order [where input = mixedInput and registry = demoRegistry
      and elems = mixedContext and T = demoNodes and jsonLDNodes = demoBuiltins]
  from th [THEN conjunct1] c' ok' hs
  have 2: "parseJSONLDContext demoRegistry mixedInput = ([1, 2] @ ([5] @ [6]) @ [3], None)"
    by simp
  then have "snd (parseJSONLDContext demoRegistry mixedInput) = None" by simp
  with th [THEN conjunct2] 2
  have 3: "ParseVocabulary demoNodes demoBuiltins demoRegistry mixedInput =
     (case apply_nodes demoNodes ([4] @ [1, 2, 5, 6, 3]) mixedInput (newParseState, []) of
        (err, s) \<Rightarrow> (Some (Memory (fst s) vocabularyAddr), err))"
    by (simp add: demoBuiltins_def)
  from 1 2 3 show ?thesis by (intro conjI)
qed

text \<open>
  C1, as the code has it. When context resolution fails, \<^verbatim>\<open>ParseVocabulary\<close> returns a
  \<^verbatim>\<open>nil\<close> vocabulary with the error. Once context resolution has succeeded, it
  returns the pointer to the vocabulary it allocated, holding whatever the traversal has
  written to that object, together with the traversal's error if there is one: after a
  failed traversal the caller receives a non-\<^verbatim>\<open>nil\<close> vocabulary holding whatever the
  handlers stored in it before the failure. (A handler that makes \<^verbatim>\<open>ctx.Result\<close> point
  elsewhere and writes there leaves the returned object untouched.)
\<close>

theorem parse_failure_result:
  "(snd (parseJSONLDContext registry input) \<noteq> None \<longrightarrow>
      ParseVocabulary T jsonLDNodes registry input = (None, snd (parseJSONLDContext registry input))) \<and>
   (snd (parseJSONLDContext registry input) = None \<longrightarrow>
      ParseVocabulary T jsonLDNodes registry input =
        (Some (Memory (fst (snd (apply_nodes T (jsonLDNodes registry @ fst (parseJSONLDContext registry input))
                 input (newParseState, [])))) vocabularyAddr),
         fst (apply_nodes T (jsonLDNodes registry @ fst (parseJSONLDContext registry input))
                 input (newParseState, []))))"
  by (cases "parseJSONLDContext registry input")
     (auto simp: ParseVocabulary_def split: prod.splits)

theorem parse_failure_result_witness:
  "ParseVocabulary demoNodes demoBuiltins demoRegistry [] = (None, Some NoContext) \<and>
   ParseVocabulary demoNodes demoBuiltins demoRegistry namesInput =
     (Some noteOnly, Some (TypeNameExists ''Note'')) \<and>
   ParseVocabulary demoNodes demoBuiltins demoRegistry rebindInput =
     (Some emptyParsedVocabulary, None)"
proof -
  have none: "parseJSONLDContext demoRegistry [] = ([], Some NoContext)"
    by (simp add: parseJSONLDContext_def)
  from parse_failure_result [where registry = demoRegistry and input = "[]" and T = demoNodes
      and jsonLDNodes = demoBuiltins, THEN conjunct1] none
  have 1: "ParseVocabulary demoNodes demoBuiltins demoRegistry [] = (None, Some NoContext)"
    by simp
  have some: "parseJSONLDContext demoRegistry namesInput = ([1, 2], None)"
    by (simp add: parseJSONLDContext_def namesInput_def JSON_LD_CONTEXT_def demoRegistry_def)
  have err: "fst (apply_nodes demoNodes ([4] @ [1, 2]) namesInput (newParseState, [])) =
      Some (TypeNameExists ''Note'')"
    by (simp add: namesInput_def demo_simps SetType_def emptyParsedVocabulary_def
        emptyVocabulary_def)
  have mem: "Memory (fst (snd (apply_nodes demoNodes ([4] @ [1, 2]) namesInput (newParseState, []))))
      vocabularyAddr = noteOnly"
    by (simp add: namesInput_def demo_simps SetType_def noteOnly_def noteType_def
        emptyParsedVocabulary_def emptyVocabulary_def)
  from parse_failure_result [where registry = demoRegistry and input = namesInput and T = demoNodes
      and jsonLDNodes = demoBuiltins, THEN conjunct2] some mem err
  have 2: "ParseVocabulary demoNodes demoBuiltins demoRegistry namesInput =
     (Some noteOnly, Some (TypeNameExists ''Note''))"
    by (simp add: demoBuiltins_def)
  have some': "parseJSONLDContext demoRegistry rebindInput = ([7], None)"
    by (simp add: parseJSONLDContext_def rebindInput_def JSON_LD_CONTEXT_def demoRegistry_def)
  have err': "fst (apply_nodes demoNodes ([4] @ [7]) rebindInput (newParseState, [])) = None"
    by (simp add: rebindInput_def demo_simps SetType_def emptyParsedVocabulary_def
        emptyVocabulary_def)
  have mem': "Memory (fst (snd (apply_nodes demoNodes ([4] @ [7]) rebindInput (newParseState, []))))
      vocabularyAddr = emptyParsedVocabulary"
    by (simp add: rebindInput_def demo_simps SetType_def emptyParsedVocabulary_def
        emptyVocabulary_def)
  from parse_failure_result [where registry = demoRegistry and input = rebindInput and T = demoNodes
      and jsonLDNodes = demoBuiltins, THEN conjunct2] some' mem' err'
  have 3: "ParseVocabulary demoNodes demoBuiltins demoRegistry rebindInput =
     (Some emptyParsedVocabulary, None)"
    by (simp add: demoBuiltins_def)
  from 1 2 3 show ?thesis by (intro conjI)
qed

text \<open>
  C1 as the specification words it (a failed parse returns no vocabulary, never a partly
  populated one) fails: the handlers of ontology \<^verbatim>\<open>A\<close> register each string
  under \<^verbatim>\<open>names\<close> as a type; for \<^verbatim>\<open>["Note", "Note"]\<close> the first is stored, the second
  fails as a duplicate, and \<^verbatim>\<open>ParseVocabulary\<close> returns the error together with a
  vocabulary that holds the type \<^verbatim>\<open>Note\<close>.
\<close>

theorem parse_failure_result_counterexample:
  "ParseVocabulary demoNodes demoBuiltins demoRegistry namesInput =
     (Some noteOnly, Some (TypeNameExists ''Note'')) \<and>
   Types (Vocab noteOnly) ''Note'' = Some noteType"
  by (simp add: ParseVocabulary_def parseJSONLDContext_def namesInput_def demoRegistry_def
      demoBuiltins_def demo_simps SetType_def noteOnly_def noteType_def emptyParsedVocabulary_def
      emptyVocabulary_def)

text \<open>
  C2 does not hold of the code. For a \<^verbatim>\<open>@context\<close> that is a number, a boolean or
  \<^verbatim>\<open>null\<close>, \<^verbatim>\<open>parseJSONLDContext\<close> assigns the error "single @context value is not a
  string" and then executes \<^verbatim>\<open>return registry.getFor(s)\<close> with the empty string,
  which overwrites it: the result is whatever the registry answers for the empty name. With
  a registry that resolves every name the parse succeeds; with one that does not know the
  empty name the error is the registry's.
\<close>

theorem non_string_context_reaches_registry:
  "parseJSONLDContext registry [(''@context'', JNumber n)] = getFor registry '''' \<and>
   parseJSONLDContext registry [(''@context'', JBool b)] = getFor registry '''' \<and>
   parseJSONLDContext registry [(''@context'', JNull)] = getFor registry '''' \<and>
   ParseVocabulary demoNodes demoBuiltins anyNameRegistry [(''@context'', JNumber 5)] =
     (Some emptyParsedVocabulary, None) \<and>
   ParseVocabulary demoNodes demoBuiltins demoRegistry [(''@context'', JNumber 5)] =
     (None, Some (External ''''))"
  by (simp add: ParseVocabulary_def parseJSONLDContext_def demoRegistry_def anyNameRegistry_def
      demoBuiltins_def demo_simps)

section \<open>The type pre-pass\<close>

lemma applyRange_dispatchEach_state:
  "applyRange T nodes input s = dispatchEach T nodes (remainingKeys input) s"
proof (induction input arbitrary: s)
  case Nil
  show ?case by (simp add: remainingKeys_def)
next
  case (Cons kv input)
  obtain k v where kv: "kv = (k, v)" by (metis prod.exhaust)
  from Cons.IH have IH: "applyRange T nodes input = dispatchEach T nodes (remainingKeys input)"
    by (intro ext)
  show ?case
    using IH by (simp add: kv remainingKeys_def)
qed

lemma applyRange_dispatchEach:
  "applyRange T nodes input = dispatchEach T nodes (remainingKeys input)"
  by (intro ext) (rule applyRange_dispatchEach_state)

lemma dispatchEach_prefix: "prefix (snd s) (snd (snd (dispatchEach T nodes kvs s)))"
proof (induction kvs arbitrary: s)
  case Nil
  show ?case by simp
next
  case (Cons kv kvs)
  obtain k v where kv: "kv = (k, v)" by (metis prod.exhaust)
  show ?case
    unfolding kv dispatchEach.simps
    by (rule andThen_prefix) (rule trace_grows(3), rule Cons.IH)
qed

lemma andThen_prefix_result:
  assumes "\<And>s. r = (None, s) \<Longrightarrow> prefix (snd s) (snd (snd (rest s)))"
  shows "prefix (snd (snd r)) (snd (snd (andThen r rest)))"
  by (rule andThen_prefix) (simp, rule assms)

lemma typeKey_order:
  assumes "distinct (map fst input)" and "distinct (map fst input')" and "set input = set input'"
  shows "typeKey input' = typeKey input"
proof -
  from assms have "map_of input = map_of input'"
    by (simp add: map_of_inject_set)
  then show ?thesis unfolding typeKey_def by (simp split: option.splits)
qed

text \<open>
  C4. At an object level that is traversed (no whole-document override), \<^verbatim>\<open>apply\<close>
  is: the dispatch of the type key (\<^verbatim>\<open>@type\<close>, or \<^verbatim>\<open>type\<close> when there is no
  \<^verbatim>\<open>@type\<close>) if there is one, and then, unless that failed, the dispatch in turn of
  every entry whose key is none of \<^verbatim>\<open>@context\<close>, \<^verbatim>\<open>@type\<close> and \<^verbatim>\<open>type\<close>. So
  every handler call made for the type key precedes every call made for another key of the
  level: the trace after the type dispatch is a prefix of the final trace. This holds for
  every order in which the map is iterated, and the type key and the set of remaining
  entries do not depend on that order.
\<close>

theorem type_pre_pass:
  "(OnlyApplyThisNode (fst s) = None \<longrightarrow>
      apply_nodes T nodes input s =
        (case typeKey input of
           None \<Rightarrow> dispatchEach T nodes (remainingKeys input) s
         | Some (k, v) \<Rightarrow>
             andThen (doApply T nodes k v s) (\<lambda>s'. dispatchEach T nodes (remainingKeys input) s'))) \<and>
   (OnlyApplyThisNode (fst s) = None \<and> typeKey input = Some (k, v) \<longrightarrow>
      prefix (snd s) (snd (snd (doApply T nodes k v s))) \<and>
      prefix (snd (snd (doApply T nodes k v s))) (snd (snd (apply_nodes T nodes input s)))) \<and>
   (distinct (map fst input) \<and> distinct (map fst input') \<and> set input = set input' \<longrightarrow>
      typeKey input' = typeKey input \<and> set (remainingKeys input') = set (remainingKeys input))"
proof (intro conjI impI)
  assume ov: "OnlyApplyThisNode (fst s) = None"
  show "apply_nodes T nodes input s =
        (case typeKey input of
           None \<Rightarrow> dispatchEach T nodes (remainingKeys input) s
         | Some (k, v) \<Rightarrow>
             andThen (doApply T nodes k v s) (\<lambda>s'. dispatchEach T nodes (remainingKeys input) s'))"
    using ov
    by (simp add: apply_nodes.simps typeKey_def applyRange_dispatchEach split: option.splits)
next
  assume a: "OnlyApplyThisNode (fst s) = None \<and> typeKey input = Some (k, v)"
  show "prefix (snd s) (snd (snd (doApply T nodes k v s)))"
    by (rule trace_grows(3))
  have "apply_nodes T nodes input s =
      andThen (doApply T nodes k v s) (\<lambda>s'. dispatchEach T nodes (remainingKeys input) s')"
    using a
    by (auto simp: apply_nodes.simps typeKey_def applyRange_dispatchEach split: option.splits)
  then show "prefix (snd (snd (doApply T nodes k v s))) (snd (snd (apply_nodes T nodes input s)))"
    by (simp add: andThen_prefix_result dispatchEach_prefix)
next
  assume "distinct (map fst input) \<and> distinct (map fst input') \<and> set input = set input'"
  then show "typeKey input' = typeKey input"
    by (simp add: typeKey_order)
next
  assume "distinct (map fst input) \<and> distinct (map fst input') \<and> set input = set input'"
  then show "set (remainingKeys input') = set (remainingKeys input)"
    by (simp add: remainingKeys_def)
qed

theorem type_pre_pass_witness:
  "apply_nodes demoNodes [0] typedInput (demoContext, []) =
     (None, demoContext,
      [Event 0 (CApply ''@type'' (JString ''Note'')) True None,
       Event 0 (CApply ''name'' (JString ''x'')) True None]) \<and>
   prefix [Event 0 (CApply ''@type'' (JString ''Note'')) True None]
     (snd (snd (apply_nodes demoNodes [0] typedInput (demoContext, [])))) \<and>
   typeKey typedInput' = typeKey typedInput"
proof -
  have ov: "OnlyApplyThisNode (fst (demoContext, [])) = None"
    by (simp add: demoContext_def newParseState_def)
  have tk: "typeKey typedInput = Some (''@type'', JString ''Note'')"
    by (simp add: typeKey_def typedInput_def JSON_LD_TYPE_def)
  have rk: "remainingKeys typedInput = [(''name'', JString ''x'')]"
    by (simp add: remainingKeys_def typedInput_def JSON_LD_TYPE_def JSON_LD_CONTEXT_def
        JSON_LD_TYPE_AS_def)
  have d: "distinct (map fst typedInput) \<and> distinct (map fst typedInput') \<and>
      set typedInput = set typedInput'"
    by (auto simp: typedInput_def typedInput'_def)
  note th = type_pre_pass [where s = "(demoContext, [])" and T = demoNodes and nodes = "[0]"
      and input = typedInput and input' = typedInput' and k = "''@type''" and v = "JString ''Note''"]
  have e: "andThen (doApply demoNodes [0] ''@type'' (JString ''Note'') (demoContext, []))
       (\<lambda>s'. dispatchEach demoNodes [0] [(''name'', JString ''x'')] s') =
     (None, demoContext,
      [Event 0 (CApply ''@type'' (JString ''Note'')) True None,
       Event 0 (CApply ''name'' (JString ''x'')) True None])"
    by (simp add: demo_simps)
  from th [THEN conjunct1] ov
  have "apply_nodes demoNodes [0] typedInput (demoContext, []) =
        (case typeKey typedInput of
           None \<Rightarrow> dispatchEach demoNodes [0] (remainingKeys typedInput) (demoContext, [])
         | Some (k, v) \<Rightarrow>
             andThen (doApply demoNodes [0] k v (demoContext, []))
               (\<lambda>s'. dispatchEach demoNodes [0] (remainingKeys typedInput) s'))"
    by blast
  then have 1: "apply_nodes demoNodes [0] typedInput (demoContext, []) =
     (None, demoContext,
      [Event 0 (CApply ''@type'' (JString ''Note'')) True None,
       Event 0 (CApply ''name'' (JString ''x'')) True None])"
    unfolding tk rk using e by simp
  have t: "snd (snd (doApply demoNodes [0] ''@type'' (JString ''Note'') (demoContext, []))) =
      [Event 0 (CApply ''@type'' (JString ''Note'')) True None]"
    by (simp add: demo_simps)
  from th [THEN conjunct2, THEN conjunct1] ov tk
  have "prefix (snd (snd (doApply demoNodes [0] ''@type'' (JString ''Note'') (demoContext, []))))
     (snd (snd (apply_nodes demoNodes [0] typedInput (demoContext, []))))"
    by blast
  with t have 2: "prefix [Event 0 (CApply ''@type'' (JString ''Note'')) True None]
     (snd (snd (apply_nodes demoNodes [0] typedInput (demoContext, []))))"
    by simp
  from th [THEN conjunct2, THEN conjunct2] d
  have 3: "typeKey typedInput' = typeKey typedInput"
    by blast
  from 1 2 3 show ?thesis by (intro conjI)
qed

section \<open>Arrays\<close>













end
